theory Spec2Isabelle
  imports Complex_Main
begin

section \<open>The ABC assembler of \<^verbatim>\<open>adhoc-midi-scripts/abc_assembler.py\<close>\<close>

text \<open>
  A shallow embedding of the notation assembler: the units-per-bar arithmetic, the
  duration parser with its four clean-up substitutions and its tokenizer, the bar
  validation, the header formatter, the keyswitch generator and the section assembler.

  Conventions of the embedding.
  \<^item> A Python \<^verbatim>\<open>str\<close> is a \<^typ>\<open>string\<close>, read as the list of its code points, for
    texts whose code points are below 256. In that range the decimal digits of \<^verbatim>\<open>\d\<close>
    and of \<^verbatim>\<open>int()\<close> are \<^verbatim>\<open>0\<close> to \<^verbatim>\<open>9\<close>.
  \<^item> A Python \<^verbatim>\<open>int\<close> is an \<^typ>\<open>int\<close>.
  \<^item> A Python \<^verbatim>\<open>float\<close> is a \<^typ>\<open>rat\<close>: durations, bar counts and the tolerance
    \<^verbatim>\<open>0.01\<close> are exact rationals, so the rounding of binary floating point, its
    overflow on very long digit runs and the interpreter's limit on the length of an
    integer literal are outside the model.
  \<^item> Every \<^verbatim>\<open>raise\<close> is a value \<open>Inl e\<close> of a sum type.
\<close>

subsection \<open>Errors and formatted messages\<close>

text \<open>
  An f-string is kept as the list of its pieces. Text and integers are rendered to
  characters; a float is kept as the number together with its format: \<open>Fixed2 x\<close> is
  \<^verbatim>\<open>{x:.2f}\<close> and \<open>FloatStr x\<close> is \<^verbatim>\<open>{x}\<close>.
\<close>

datatype piece = Lit string | Fixed2 rat | FloatStr rat

type_synonym message = "piece list"

text \<open>
  \<open>ValueError_literal\<close> is the \<^verbatim>\<open>ValueError\<close> that \<^verbatim>\<open>int()\<close> and tuple unpacking
  raise (their message is the interpreter's); \<open>ValueError m\<close> is a \<^verbatim>\<open>ValueError\<close>
  raised by the assembler itself with message \<open>m\<close>.
\<close>

datatype error = ValueError_literal | ValueError message | ZeroDivisionError

subsection \<open>Characters, \<^verbatim>\<open>int()\<close>, \<^verbatim>\<open>str()\<close>, \<^verbatim>\<open>split\<close> and \<^verbatim>\<open>join\<close>\<close>

definition is_digit :: "char \<Rightarrow> bool" where
  "is_digit c = (c \<in> set ''0123456789'')"

text \<open>The value of a digit is its position in the string of the ten digits.\<close>

definition digit_val :: "char \<Rightarrow> int" where
  "digit_val c = int (length (takeWhile (\<lambda>d. d \<noteq> c) ''0123456789''))"

text \<open>The value of a run of decimal digits, most significant digit first.\<close>

definition digits_val :: "string \<Rightarrow> int" where
  "digits_val ds = foldl (\<lambda>acc c. 10 * acc + digit_val c) 0 ds"

text \<open>
  The characters \<^verbatim>\<open>int()\<close> skips at both ends of a literal: tab to carriage return
  and the space, and below code point 256 also \<^verbatim>\<open>0x85\<close> and the no-break space.
\<close>

definition is_space :: "char \<Rightarrow> bool" where
  "is_space c = (c \<in> {CHR 0x09, CHR 0x0A, CHR 0x0B, CHR 0x0C, CHR 0x0D, CHR 0x20,
                      CHR 0x85, CHR 0xA0})"

definition strip :: "string \<Rightarrow> string" where
  "strip s = rev (dropWhile is_space (rev (dropWhile is_space s)))"

text \<open>
  The digit part of an integer literal: a digit, then digits each optionally preceded by
  one underscore.
\<close>

fun int_body :: "string \<Rightarrow> bool" where
  "int_body [] = False"
| "int_body [c] = is_digit c"
| "int_body (c # d # r) =
     (is_digit c \<and> (if d = CHR ''_'' then int_body r else int_body (d # r)))"

text \<open>\<^verbatim>\<open>int(s)\<close> in base ten; \<open>None\<close> is the \<^verbatim>\<open>ValueError\<close>.\<close>

definition py_int :: "string \<Rightarrow> int option" where
  "py_int s =
     (let t = strip s;
          neg = (take 1 t = ''-'');
          body = (if take 1 t = ''-'' \<or> take 1 t = ''+'' then drop 1 t else t)
      in if int_body body
         then Some ((if neg then -1 else 1) * digits_val (filter (\<lambda>c. c \<noteq> CHR ''_'') body))
         else None)"

text \<open>\<^verbatim>\<open>str(n)\<close> of an integer, as an f-string renders it.\<close>

fun show_nat :: "nat \<Rightarrow> string" where
  "show_nat n =
     (if n < 10 then [''0123456789'' ! n]
      else show_nat (n div 10) @ [''0123456789'' ! (n mod 10)])"

declare show_nat.simps [simp del]

definition show_int :: "int \<Rightarrow> string" where
  "show_int i = (if i < 0 then CHR ''-'' # show_nat (nat (- i)) else show_nat (nat i))"

text \<open>\<^verbatim>\<open>s.split(sep)\<close> for a one-character separator.\<close>

fun split_on :: "char \<Rightarrow> string \<Rightarrow> string list" where
  "split_on sep [] = [[]]"
| "split_on sep (c # cs) =
     (if c = sep then [] # split_on sep cs
      else (case split_on sep cs of p # ps \<Rightarrow> (c # p) # ps | [] \<Rightarrow> [[c]]))"

text \<open>\<^verbatim>\<open>sep.join(xs)\<close>.\<close>

fun join :: "string \<Rightarrow> string list \<Rightarrow> string" where
  "join sep [] = []"
| "join sep [x] = x"
| "join sep (x # y # ys) = x @ sep @ join sep (y # ys)"

subsection \<open>Bar arithmetic: \<^verbatim>\<open>units_per_bar\<close>\<close>

text \<open>
  \<^verbatim>\<open>num, denom = map(int, meter.split('/'))\<close>: the unpacking succeeds when the split
  has exactly two parts and \<^verbatim>\<open>int\<close> accepts both; every other case raises a
  \<^verbatim>\<open>ValueError\<close>.
\<close>

definition parse_meter :: "string \<Rightarrow> (int \<times> int) option" where
  "parse_meter meter =
     (case map py_int (split_on CHR ''/'' meter) of
        [Some num, Some denom] \<Rightarrow> Some (num, denom)
      | _ \<Rightarrow> None)"

text \<open>
  \<^verbatim>\<open>re.match(r'1/(\d+)', unit_length)\<close>: the pattern is tried at the start of the string
  only and need not reach its end; the result is group 1, the longest run of digits
  after \<^verbatim>\<open>1/\<close>.
\<close>

definition match_unit_length :: "string \<Rightarrow> string option" where
  "match_unit_length unit_length =
     (case unit_length of
        c1 # c2 # r \<Rightarrow>
          (if c1 = CHR ''1'' \<and> c2 = CHR ''/'' \<and> takeWhile is_digit r \<noteq> []
           then Some (takeWhile is_digit r) else None)
      | _ \<Rightarrow> None)"

definition units_per_bar :: "string \<Rightarrow> string \<Rightarrow> error + int" where
  "units_per_bar meter unit_length =
     (case parse_meter meter of
        None \<Rightarrow> Inl ValueError_literal
      | Some (num, denom) \<Rightarrow>
          (case match_unit_length unit_length of
             None \<Rightarrow> Inr 8
           | Some g \<Rightarrow>
               (case py_int g of
                  None \<Rightarrow> Inl ValueError_literal
                | Some unit_denom \<Rightarrow>
                    if denom = 0 then Inl ZeroDivisionError
                    else Inr ((num * unit_denom) div denom))))"

subsection \<open>The duration parser: \<^verbatim>\<open>count_abc_units\<close>\<close>

text \<open>
  Each \<^verbatim>\<open>re.sub\<close> scans left to right and replaces the leftmost match at every
  position where one starts; a position where the pattern fails keeps its character.
  The Boolean argument of each scanner says whether the scan is inside a match.

  \<^verbatim>\<open>re.sub(r'"[^"]*"', '', abc)\<close>: a double quote opens a match when another double quote
  follows anywhere later (the class \<^verbatim>\<open>[^"]\<close> also takes line breaks); the match ends at
  the next double quote.
\<close>

fun strip_quoted :: "bool \<Rightarrow> string \<Rightarrow> string" where
  "strip_quoted inside [] = []"
| "strip_quoted False (c # cs) =
     (if c = CHR 0x22 \<and> CHR 0x22 \<in> set cs then strip_quoted True cs
      else c # strip_quoted False cs)"
| "strip_quoted True (c # cs) =
     (if c = CHR 0x22 then strip_quoted False cs else strip_quoted True cs)"

text \<open>
  \<^verbatim>\<open>re.sub(r'\|+', ' ', clean)\<close>: a maximal run of bar lines becomes one space.
\<close>

fun replace_bars :: "bool \<Rightarrow> string \<Rightarrow> string" where
  "replace_bars inside [] = []"
| "replace_bars inside (c # cs) =
     (if c = CHR ''|''
      then (if inside then replace_bars True cs else CHR '' '' # replace_bars True cs)
      else c # replace_bars False cs)"

text \<open>
  \<^verbatim>\<open>re.sub(r'%%.*', '', clean)\<close>: from two percent signs to the end of the line; the
  dot does not take the line feed, which stays.
\<close>

fun strip_directives :: "bool \<Rightarrow> string \<Rightarrow> string" where
  "strip_directives inside [] = []"
| "strip_directives False (c # cs) =
     (if c = CHR ''%'' \<and> take 1 cs = ''%'' then strip_directives True cs
      else c # strip_directives False cs)"
| "strip_directives True (c # cs) =
     (if c = CHR 0x0A then c # strip_directives False cs else strip_directives True cs)"

text \<open>
  \<^verbatim>\<open>re.sub(r'\[.*?\]', '', clean)\<close>: an opening bracket starts a match when a closing
  bracket follows on the same line; the match is lazy and ends at the first closing
  bracket.
\<close>

fun strip_brackets :: "bool \<Rightarrow> string \<Rightarrow> string" where
  "strip_brackets inside [] = []"
| "strip_brackets False (c # cs) =
     (if c = CHR ''['' \<and> CHR '']'' \<in> set (takeWhile (\<lambda>x. x \<noteq> CHR 0x0A) cs)
      then strip_brackets True cs
      else c # strip_brackets False cs)"
| "strip_brackets True (c # cs) =
     (if c = CHR '']'' then strip_brackets False cs else strip_brackets True cs)"

text \<open>The text the tokenizer sees: the four substitutions in the order of the source.\<close>

definition clean :: "string \<Rightarrow> string" where
  "clean abc =
     strip_brackets False (strip_directives False (replace_bars False (strip_quoted False abc)))"

text \<open>
  The note pattern \<^verbatim>\<open>([_^=]?)([A-Ga-gz])([,']*)(\d*)(/?)(\d*)\<close>. A token carries the
  three groups the loop reads: group 4 (numerator), group 5 (slash), group 6
  (denominator).
\<close>

definition is_accidental :: "char \<Rightarrow> bool" where
  "is_accidental c = (c \<in> set ''_^='')"

definition is_note :: "char \<Rightarrow> bool" where
  "is_note c = (c \<in> set ''ABCDEFGabcdefgz'')"

definition is_octave :: "char \<Rightarrow> bool" where
  "is_octave c = (c = CHR '','' \<or> c = CHR 0x27)"

type_synonym token = "string \<times> string \<times> string"

text \<open>
  The pattern after its note letter: every remaining part is greedy and may be empty, so
  no backtracking occurs. The result is the token and the text after the match.
\<close>

definition match_tail :: "string \<Rightarrow> token \<times> string" where
  "match_tail s =
     (let r1 = dropWhile is_octave s;
          num = takeWhile is_digit r1;
          r2 = dropWhile is_digit r1;
          slash = (if take 1 r2 = ''/'' then ''/'' else []);
          r3 = (if take 1 r2 = ''/'' then drop 1 r2 else r2);
          denom = takeWhile is_digit r3;
          r4 = dropWhile is_digit r3
      in ((num, slash, denom), r4))"

text \<open>
  The pattern at the start of \<open>s\<close>: with an accidental when a note letter follows it,
  otherwise without (an accidental is never a note letter).
\<close>

definition match_note :: "string \<Rightarrow> (token \<times> string) option" where
  "match_note s =
     (case s of
        [] \<Rightarrow> None
      | c # cs \<Rightarrow>
          if is_accidental c \<and> (case cs of d # ds \<Rightarrow> is_note d | [] \<Rightarrow> False)
          then Some (match_tail (tl cs))
          else if is_note c then Some (match_tail cs)
          else None)"

text \<open>
  \<^verbatim>\<open>note_pattern.finditer(clean)\<close>: the matches from left to right; after a match the
  scan resumes where the match ended (a match is never empty), after a failure one
  character further.
\<close>

function tokens :: "string \<Rightarrow> token list" where
  "tokens [] = []"
| "tokens (c # cs) =
     (case match_note (c # cs) of
        Some (t, r) \<Rightarrow> t # tokens r
      | None \<Rightarrow> tokens cs)"
  by pat_completeness auto
termination
proof (relation "measure length")
  show "wf (measure length)" by simp
next
  fix c :: char and cs :: string
  assume "match_note (c # cs) = None"
  show "(cs, c # cs) \<in> measure length" by simp
next
  fix c :: char and cs x t r
  assume m: "match_note (c # cs) = Some x" and x: "(t, r) = x"
  have d: "\<And>P (xs::string). length (dropWhile P xs) \<le> length xs"
    by (simp add: length_dropWhile_le)
  have tail: "length (snd (match_tail s)) \<le> length s" for s
  proof -
    have "length (dropWhile is_digit (dropWhile is_octave s)) \<le> length s"
      using d [of is_digit "dropWhile is_octave s"] d [of is_octave s] by linarith
    moreover have
      "length (dropWhile is_digit (drop 1 (dropWhile is_digit (dropWhile is_octave s))))
        \<le> length s"
      using d [of is_digit "drop 1 (dropWhile is_digit (dropWhile is_octave s))"]
        d [of is_digit "dropWhile is_octave s"] d [of is_octave s] by simp
    ultimately show ?thesis
      using d [of is_digit "dropWhile is_digit (dropWhile is_octave s)"]
      by (simp add: match_tail_def Let_def)
  qed
  from m x have "r = snd (match_tail (tl cs)) \<or> r = snd (match_tail cs)"
    by (auto simp: match_note_def split: if_splits)
  then have "length r \<le> length cs"
    using tail [of "tl cs"] tail [of cs] by auto
  then show "(r, c # cs) \<in> measure length" by simp
qed

text \<open>The body of the loop: the duration of one match, by the source's chain of tests.\<close>

definition duration :: "token \<Rightarrow> error + rat" where
  "duration t =
     (case t of (num, slash, denom) \<Rightarrow>
        if num \<noteq> [] \<and> slash \<noteq> [] \<and> denom \<noteq> [] then
          (case (py_int num, py_int denom) of
             (Some n, Some d) \<Rightarrow>
               if d = 0 then Inl ZeroDivisionError else Inr (of_int n / of_int d)
           | _ \<Rightarrow> Inl ValueError_literal)
        else if slash \<noteq> [] \<and> denom \<noteq> [] then
          (case py_int denom of
             Some d \<Rightarrow> if d = 0 then Inl ZeroDivisionError else Inr (1 / of_int d)
           | None \<Rightarrow> Inl ValueError_literal)
        else if num \<noteq> [] then
          (case py_int num of
             Some n \<Rightarrow> Inr (of_int n)
           | None \<Rightarrow> Inl ValueError_literal)
        else Inr 1)"

text \<open>The loop \<^verbatim>\<open>for match in ...: total += duration\<close>, stopped by the first raise.\<close>

fun add_durations :: "rat \<Rightarrow> token list \<Rightarrow> error + rat" where
  "add_durations tot [] = Inr tot"
| "add_durations tot (t # ts) =
     (case duration t of
        Inl e \<Rightarrow> Inl e
      | Inr d \<Rightarrow> add_durations (tot + d) ts)"

definition count_abc_units :: "string \<Rightarrow> error + rat" where
  "count_abc_units abc = add_durations 0 (tokens (clean abc))"

subsection \<open>Bar validation: \<^verbatim>\<open>validate_bars\<close>\<close>

text \<open>
  The message of a failed validation,
  \<^verbatim>\<open>f"Expected {expected_bars} bars ({expected_bars * upb} units), got {actual_bars:.2f} bars ({actual_units} units)"\<close>.
\<close>

definition bars_message :: "int \<Rightarrow> int \<Rightarrow> rat \<Rightarrow> rat \<Rightarrow> message" where
  "bars_message expected_bars upb actual_bars actual_units =
     [Lit (''Expected '' @ show_int expected_bars @ '' bars ('' @
           show_int (expected_bars * upb) @ '' units), got ''),
      Fixed2 actual_bars, Lit '' bars ('', FloatStr actual_units, Lit '' units)'']"

text \<open>
  The division \<^verbatim>\<open>actual_units / upb\<close> has a float on the left, so a zero \<^verbatim>\<open>upb\<close>
  raises \<^verbatim>\<open>ZeroDivisionError\<close>. The empty message of a success is the empty list.
  Arguments with a default in the source (\<^verbatim>\<open>meter\<close> and \<^verbatim>\<open>unit_length\<close> here, the
  index of the header formatter, the unit length of the keyswitch generator) are
  ordinary arguments of the model.
\<close>

definition validate_bars :: "string \<Rightarrow> int \<Rightarrow> string \<Rightarrow> string \<Rightarrow> error + (bool \<times> message)" where
  "validate_bars abc expected_bars meter unit_length =
     (case units_per_bar meter unit_length of
        Inl e \<Rightarrow> Inl e
      | Inr upb \<Rightarrow>
          (case count_abc_units abc of
             Inl e \<Rightarrow> Inl e
           | Inr actual_units \<Rightarrow>
               if upb = 0 then Inl ZeroDivisionError
               else
                 (let actual_bars = actual_units / of_int upb
                  in if \<bar>actual_bars - of_int expected_bars\<bar> < 1 / 100
                     then Inr (True, [])
                     else Inr (False,
                            bars_message expected_bars upb actual_bars actual_units))))"

subsection \<open>The header formatter: \<^verbatim>\<open>generate_abc_header\<close>\<close>

record ABCHeader =
  title :: string
  meter :: string
  unit_length :: string
  tempo :: "int option"
  key :: string
  midi_program :: int
  midi_channel :: int

text \<open>
  The list \<^verbatim>\<open>lines\<close> as the source builds it: four lines, the appended tempo line when
  the tempo is not \<^verbatim>\<open>None\<close>, and the three lines of the \<^verbatim>\<open>extend\<close>.
\<close>

definition header_lines :: "ABCHeader \<Rightarrow> int \<Rightarrow> string list" where
  "header_lines header index =
     (let lines = [''X:'' @ show_int index,
                   ''T:'' @ title header,
                   ''M:'' @ meter header,
                   ''L:'' @ unit_length header];
          lines = (case tempo header of
                     Some t \<Rightarrow> lines @ [''Q:1/4='' @ show_int t]
                   | None \<Rightarrow> lines)
      in lines @ [''K:'' @ key header,
                  ''%%MIDI program '' @ show_int (midi_program header),
                  ''%%MIDI channel '' @ show_int (midi_channel header)])"

definition generate_abc_header :: "ABCHeader \<Rightarrow> int \<Rightarrow> string" where
  "generate_abc_header header index = join [CHR 0x0A] (header_lines header index)"

subsection \<open>Event generators: \<^verbatim>\<open>inject_keyswitch\<close> and \<^verbatim>\<open>inject_cc\<close>\<close>





definition inject_cc :: "int \<Rightarrow> int \<Rightarrow> string" where
  "inject_cc cc val = ''%%MIDI control '' @ show_int cc @ '' '' @ show_int val"

subsection \<open>The section assembler: \<^verbatim>\<open>assemble_instrument\<close>\<close>

record Section =
  name :: string
  bars :: int
  abc :: string

text \<open>
  The fields \<^verbatim>\<open>note\<close>, \<^verbatim>\<open>beat\<close>, \<^verbatim>\<open>cc\<close> and \<^verbatim>\<open>values\<close> of the two event
  classes carry a prefix here, since \<^verbatim>\<open>note\<close> and \<^verbatim>\<open>values\<close> are reserved words.
\<close>

record Keyswitch =
  ks_note :: int
  ks_beat :: rat

record CCAutomation =
  cc_number :: int
  cc_values :: "(rat \<times> int) list"

text \<open>
  The dictionary \<^verbatim>\<open>{s.name: s for s in sections}\<close>: a later section replaces an earlier
  one of the same name.
\<close>

definition section_map :: "Section list \<Rightarrow> (string \<rightharpoonup> Section)" where
  "section_map sections = foldl (\<lambda>m s. m(name s \<mapsto> s)) Map.empty sections"

text \<open>
  The first loop: the sections are validated in the order of the list \<^verbatim>\<open>sections\<close>;
  the first invalid one raises \<^verbatim>\<open>ValueError(f"Section '{section.name}': {error}")\<close>, and
  an exception of \<^verbatim>\<open>validate_bars\<close> passes through.
\<close>

fun validate_sections :: "Section list \<Rightarrow> ABCHeader \<Rightarrow> error + unit" where
  "validate_sections [] header = Inr ()"
| "validate_sections (s # ss) header =
     (case validate_bars (abc s) (bars s) (meter header) (unit_length header) of
        Inl e \<Rightarrow> Inl e
      | Inr (valid, err) \<Rightarrow>
          if \<not> valid
          then Inl (ValueError (Lit (''Section '' @ [CHR 0x27] @ name s @ [CHR 0x27] @ '': '') # err))
          else validate_sections ss header)"

text \<open>
  The second loop: \<^verbatim>\<open>abc_content\<close> grows by a marker line and the section's text for
  every name of the structure; a name that is not a key of the dictionary raises
  \<^verbatim>\<open>ValueError(f"Unknown section: {section_name}")\<close>.
\<close>

fun assemble_body :: "(string \<rightharpoonup> Section) \<Rightarrow> string list \<Rightarrow> string list \<Rightarrow> error + string list" where
  "assemble_body m [] abc_content = Inr abc_content"
| "assemble_body m (section_name # rest) abc_content =
     (case m section_name of
        None \<Rightarrow> Inl (ValueError [Lit (''Unknown section: '' @ section_name)])
      | Some s \<Rightarrow>
          assemble_body m rest (abc_content @ [''% Section: '' @ section_name, abc s]))"

text \<open>
  The header is an object the call mutates, so the function returns the header as the
  call leaves it together with the outcome: the document, or the exception raised. The
  two optional arguments are never read by the body.
\<close>

definition assemble_instrument ::
  "string \<Rightarrow> Section list \<Rightarrow> string list \<Rightarrow> ABCHeader \<Rightarrow>
   Keyswitch list option \<Rightarrow> CCAutomation list option \<Rightarrow> ABCHeader \<times> (error + string)" where
  "assemble_instrument instrument_name sections structure header keyswitches automation =
     (case validate_sections sections header of
        Inl e \<Rightarrow> (header, Inl e)
      | Inr _ \<Rightarrow>
          (let header' = header\<lparr>title := title header @ '' - '' @ instrument_name\<rparr>;
               abc_content = [generate_abc_header header' 1, []]
           in (header',
               case assemble_body (section_map sections) structure abc_content of
                 Inl e \<Rightarrow> Inl e
               | Inr abc_content \<Rightarrow> Inr (join [CHR 0x0A] abc_content))))"

subsection \<open>Vocabulary of the properties\<close>

text \<open>A non-empty run of decimal digits, the way a positive integer is written.\<close>

definition digit_run :: "string \<Rightarrow> bool" where
  "digit_run ds = (ds \<noteq> [] \<and> list_all is_digit ds)"

text \<open>
  The duration the specification gives a token, by its table of four cases read from
  the top: numerator, slash and denominator; slash and denominator; numerator; none.
\<close>

definition token_duration :: "token \<Rightarrow> rat" where
  "token_duration t =
     (case t of (num, slash, denom) \<Rightarrow>
        if num \<noteq> [] \<and> slash \<noteq> [] \<and> denom \<noteq> [] then
          of_int (digits_val num) / of_int (digits_val denom)
        else if slash \<noteq> [] \<and> denom \<noteq> [] then 1 / of_int (digits_val denom)
        else if num \<noteq> [] then of_int (digits_val num)
        else 1)"

definition zero_denominator :: "token \<Rightarrow> bool" where
  "zero_denominator t =
     (case t of (num, slash, denom) \<Rightarrow> slash \<noteq> [] \<and> denom \<noteq> [] \<and> digits_val denom = 0)"

definition digit_groups :: "token \<Rightarrow> bool" where
  "digit_groups t = (case t of (num, slash, denom) \<Rightarrow> list_all is_digit num \<and> list_all is_digit denom)"


text \<open>
  The characters an integer literal accepted by \<^verbatim>\<open>int()\<close> can contain: digits, white
  space, the two signs and the underscore.
\<close>

definition literal_char :: "char \<Rightarrow> bool" where
  "literal_char c = (is_digit c \<or> is_space c \<or> c \<in> {CHR ''+'', CHR ''-'', CHR ''_''})"

text \<open>
  The example of the specification: a header with the default meter \<open>4/4\<close> and unit
  length \<open>1/8\<close>, the two sections \<open>A\<close> and \<open>B\<close> of two bars each, and a section that
  declares two bars and holds one.
\<close>

definition demo_header :: ABCHeader where
  "demo_header = \<lparr>title = ''Song'', meter = ''4/4'', unit_length = ''1/8'', tempo = None,
     key = ''C'', midi_program = 0, midi_channel = 1\<rparr>"

definition section_A :: Section where
  "section_A = \<lparr>name = ''A'', bars = 2, abc = ''C2C2C2C2 | C2C2C2C2 |''\<rparr>"

definition section_B :: Section where
  "section_B = \<lparr>name = ''B'', bars = 2, abc = ''z8 | z8 |''\<rparr>"

definition section_short :: Section where
  "section_short = \<lparr>name = ''C'', bars = 2, abc = ''z8 |''\<rparr>"

section \<open>Verified properties\<close>

subsection \<open>Integer literals and the meter\<close>

lemma digit_not_space: "is_digit c \<Longrightarrow> \<not> is_space c"
  by (auto simp: is_digit_def is_space_def)

lemma strip_digits: "list_all is_digit ds \<Longrightarrow> strip ds = ds"
proof -
  assume a: "list_all is_digit ds"
  have d: "\<And>xs. list_all is_digit xs \<Longrightarrow> dropWhile is_space xs = xs"
    by (case_tac xs) (auto simp: digit_not_space)
  from a have "list_all is_digit (rev ds)" by (simp add: list_all_iff)
  with a d show ?thesis by (simp add: strip_def)
qed

lemma int_body_digits: "ds \<noteq> [] \<Longrightarrow> list_all is_digit ds \<Longrightarrow> int_body ds"
  by (induction ds rule: int_body.induct) (auto simp: is_digit_def)

lemma filter_digits: "list_all is_digit ds \<Longrightarrow> filter (\<lambda>c. c \<noteq> CHR ''_'') ds = ds"
  by (induction ds) (auto simp: is_digit_def)

lemma py_int_digits: "digit_run ds \<Longrightarrow> py_int ds = Some (digits_val ds)"
proof -
  assume a: "digit_run ds"
  then obtain c cs where ds: "ds = c # cs" and c: "is_digit c"
    by (cases ds) (auto simp: digit_run_def)
  from c have t: "take 1 ds \<noteq> ''-''" "take 1 ds \<noteq> ''+''"
    by (auto simp: ds is_digit_def)
  from a show ?thesis
    using t by (simp add: py_int_def Let_def strip_digits int_body_digits filter_digits digit_run_def)
qed

lemma split_on_no_sep: "sep \<notin> set s \<Longrightarrow> split_on sep s = [s]"
  by (induction s) auto

lemma split_on_append: "sep \<notin> set a \<Longrightarrow> split_on sep (a @ sep # b) = a # split_on sep b"
  by (induction a) auto

lemma digits_no_slash: "list_all is_digit ds \<Longrightarrow> CHR ''/'' \<notin> set ds"
  by (auto simp: list_all_iff is_digit_def)

lemma parse_meter_digits:
  "digit_run ns \<Longrightarrow> digit_run ds \<Longrightarrow> parse_meter (ns @ ''/'' @ ds) = Some (digits_val ns, digits_val ds)"
  by (simp add: parse_meter_def split_on_append split_on_no_sep digits_no_slash py_int_digits digit_run_def)

lemma takeWhile_run:
  "list_all P us \<Longrightarrow> rest = [] \<or> \<not> P (hd rest) \<Longrightarrow> takeWhile P (us @ rest) = us"
  by (induction us) (auto simp: neq_Nil_conv takeWhile_eq_Nil_iff)

lemma match_unit_length_run:
  "digit_run us \<Longrightarrow> rest = [] \<or> \<not> is_digit (hd rest) \<Longrightarrow>
   match_unit_length (''1/'' @ us @ rest) = Some us"
  by (simp add: match_unit_length_def takeWhile_run digit_run_def)

lemma match_unit_length_None:
  "\<not> (\<exists>us rest. ul = ''1/'' @ us @ rest \<and> digit_run us) \<Longrightarrow> match_unit_length ul = None"
proof (rule ccontr)
  assume n: "\<not> (\<exists>us rest. ul = ''1/'' @ us @ rest \<and> digit_run us)"
  assume "match_unit_length ul \<noteq> None"
  then obtain r where ul: "ul = ''1/'' @ r" and t: "takeWhile is_digit r \<noteq> []"
    by (auto simp: match_unit_length_def split: list.splits if_splits)
  have "r = takeWhile is_digit r @ dropWhile is_digit r" by simp
  moreover have "digit_run (takeWhile is_digit r)"
    using t by (auto simp: digit_run_def list_all_iff dest: set_takeWhileD)
  ultimately show False using n ul by metis
qed

lemma match_unit_length_Some:
  "match_unit_length ul = Some g \<Longrightarrow> digit_run g"
  by (auto simp: match_unit_length_def digit_run_def list_all_iff split: list.splits if_splits dest: set_takeWhileD)

subsection \<open>Tokens and the four substitutions\<close>

lemma list_all_takeWhile: "list_all P (takeWhile P xs)"
  by (induction xs) auto

lemma match_tail_groups: "digit_groups (fst (match_tail s))"
  by (simp add: match_tail_def digit_groups_def Let_def list_all_takeWhile)

lemma match_note_groups: "match_note s = Some (t, r) \<Longrightarrow> digit_groups t"
  using match_tail_groups
  by (auto simp: match_note_def split: list.splits if_splits) (metis fst_conv)+

lemma tokens_groups: "list_all digit_groups (tokens s)"
proof (induction s rule: tokens.induct)
  case 1
  show ?case by simp
next
  case (2 c cs)
  show ?case
  proof (cases "match_note (c # cs)")
    case None
    with 2(1) show ?thesis by simp
  next
    case (Some p)
    obtain t r where p: "p = (t, r)" by (cases p)
    from Some p have "digit_groups t" by (auto dest: match_note_groups)
    moreover have "list_all digit_groups (tokens r)"
      using 2(2) [OF Some p [symmetric]] .
    ultimately show ?thesis using Some p by simp
  qed
qed

lemma duration_groups:
  "digit_groups t \<Longrightarrow>
   duration t = (if zero_denominator t then Inl ZeroDivisionError else Inr (token_duration t))"
  by (cases t)
     (auto simp: duration_def token_duration_def zero_denominator_def digit_groups_def
        py_int_digits digit_run_def)

lemma add_durations_sum:
  "\<forall>t\<in>set ts. digit_groups t \<and> \<not> zero_denominator t \<Longrightarrow>
   add_durations tot ts = Inr (tot + sum_list (map token_duration ts))"
  by (induction ts arbitrary: tot) (auto simp: duration_groups)

lemma add_durations_zero:
  "\<forall>t\<in>set ts. digit_groups t \<Longrightarrow> \<exists>t\<in>set ts. zero_denominator t \<Longrightarrow>
   add_durations tot ts = Inl ZeroDivisionError"
  by (induction ts arbitrary: tot) (auto simp: duration_groups)

lemma count_abc_units_sum:
  "\<forall>t\<in>set (tokens (clean s)). \<not> zero_denominator t \<Longrightarrow>
   count_abc_units s = Inr (sum_list (map token_duration (tokens (clean s))))"
  using add_durations_sum [of "tokens (clean s)" 0]
  using tokens_groups [of "clean s"] by (simp add: count_abc_units_def list_all_iff)

lemma count_abc_units_zero:
  "\<exists>t\<in>set (tokens (clean s)). zero_denominator t \<Longrightarrow>
   count_abc_units s = Inl ZeroDivisionError"
  using add_durations_zero [of "tokens (clean s)" 0]
  using tokens_groups [of "clean s"] by (simp add: count_abc_units_def list_all_iff)

lemma count_abc_units_cases:
  "count_abc_units s = Inl ZeroDivisionError \<or> (\<exists>u. count_abc_units s = Inr u)"
  using count_abc_units_sum [of s] count_abc_units_zero [of s] by blast

lemma tokens_no_note: "\<forall>c\<in>set s. \<not> is_note c \<Longrightarrow> tokens s = []"
proof (induction s)
  case Nil
  then show ?case by simp
next
  case (Cons c cs)
  then have "match_note (c # cs) = None"
    by (auto simp: match_note_def split: list.splits)
  with Cons show ?case by simp
qed

lemma strip_quoted_pass:
  "CHR 0x22 \<notin> set x \<Longrightarrow> strip_quoted False (x @ r) = x @ strip_quoted False r"
  by (induction x) auto

lemma replace_bars_pass:
  "CHR ''|'' \<notin> set x \<Longrightarrow> x \<noteq> [] \<Longrightarrow> replace_bars b (x @ r) = x @ replace_bars False r"
proof (induction x arbitrary: b)
  case Nil
  then show ?case by simp
next
  case (Cons c x)
  then show ?case by (cases x) auto
qed

lemma strip_directives_pass:
  "CHR ''%'' \<notin> set x \<Longrightarrow> strip_directives False (x @ r) = x @ strip_directives False r"
  by (induction x) auto

lemma strip_brackets_pass:
  "CHR ''['' \<notin> set x \<Longrightarrow> strip_brackets False (x @ r) = x @ strip_brackets False r"
  by (induction x) auto

lemma strip_brackets_inside:
  "CHR '']'' \<notin> set g \<Longrightarrow> strip_brackets True (g @ CHR '']'' # r) = strip_brackets False r"
  by (induction g) auto

lemma strip_brackets_group:
  assumes "CHR '']'' \<notin> set g" "CHR 0x0A \<notin> set g"
  shows "strip_brackets False (CHR ''['' # g @ CHR '']'' # r) = strip_brackets False r"
proof -
  have "takeWhile (\<lambda>x. x \<noteq> CHR 0x0A) (g @ CHR '']'' # r)
      = g @ takeWhile (\<lambda>x. x \<noteq> CHR 0x0A) (CHR '']'' # r)"
    using assms(2) by (intro takeWhile_append2) auto
  then have "CHR '']'' \<in> set (takeWhile (\<lambda>x. x \<noteq> CHR 0x0A) (g @ CHR '']'' # r))"
    by simp
  then show ?thesis
    using assms(1) by (simp add: strip_brackets_inside)
qed

lemma clean_group:
  assumes "set g \<inter> {CHR 0x22, CHR ''|'', CHR ''%'', CHR '']'', CHR 0x0A} = {}"
  shows "clean (''['' @ g @ '']'' @ r) = clean r"
proof -
  let ?x = "CHR ''['' # g @ '']''"
  have x: "CHR 0x22 \<notin> set ?x" "CHR ''|'' \<notin> set ?x" "CHR ''%'' \<notin> set ?x" "?x \<noteq> []"
    using assms by auto
  have g: "CHR '']'' \<notin> set g" "CHR 0x0A \<notin> set g" using assms by auto
  have 1: "strip_quoted False (?x @ r) = ?x @ strip_quoted False r"
    using x(1) by (rule strip_quoted_pass)
  have 2: "replace_bars False (?x @ r1) = ?x @ replace_bars False r1" for r1
    using x(2) x(4) by (rule replace_bars_pass)
  have 3: "strip_directives False (?x @ r2) = ?x @ strip_directives False r2" for r2
    using x(3) by (rule strip_directives_pass)
  have "strip_directives False (replace_bars False (strip_quoted False (?x @ r)))
      = ?x @ strip_directives False (replace_bars False (strip_quoted False r))"
    by (simp only: 1 2 3)
  then show ?thesis
    using strip_brackets_group [OF g] by (simp add: clean_def)
qed

subsection \<open>Evaluation on the examples, and the keyswitch token\<close>

lemmas eval_defs = count_abc_units_def clean_def match_note_def match_tail_def
  is_accidental_def is_note_def is_octave_def is_digit_def duration_def py_int_def strip_def
  is_space_def digits_val_def digit_val_def

lemma count_example_C: "count_abc_units ''C'' = Inr 1" by (simp add: eval_defs)
lemma count_example_C2: "count_abc_units ''C2'' = Inr 2" by (simp add: eval_defs)
lemma count_example_C_half: "count_abc_units ''C/2'' = Inr (1/2)" by (simp add: eval_defs)
lemma count_example_C3_2: "count_abc_units ''C3/2'' = Inr (3/2)" by (simp add: eval_defs)
lemma count_example_z4: "count_abc_units ''z4'' = Inr 4" by (simp add: eval_defs)
lemma count_example_chord: "count_abc_units ''[CEG]'' = Inr 0" by (simp add: eval_defs)









subsection \<open>Meters that do not parse\<close>

lemma split_on_nonempty: "split_on sep s \<noteq> []"
  by (induction s) (simp_all split: list.splits)

lemma length_split_on: "length (split_on sep s) = Suc (length (filter (\<lambda>c. c = sep) s))"
proof (induction s)
  case Nil
  show ?case by simp
next
  case (Cons a s)
  obtain p ps where sp: "split_on sep s = p # ps"
    using split_on_nonempty [of sep s] by (cases "split_on sep s") auto
  from Cons sp have "length ps = length (filter (\<lambda>c. c = sep) s)" by simp
  with Cons sp show ?case by simp
qed

lemma parse_meter_slashes:
  assumes "length (filter (\<lambda>c. c = CHR ''/'') m) \<noteq> 1"
  shows "parse_meter m = None"
proof -
  have n: "length (split_on CHR ''/'' m) \<noteq> 2"
    using assms by (simp add: length_split_on)
  have "map py_int (split_on CHR ''/'' m) \<noteq> [Some x, Some y]" for x y
  proof
    assume "map py_int (split_on CHR ''/'' m) = [Some x, Some y]"
    then have "length (map py_int (split_on CHR ''/'' m)) = length [Some x, Some y]"
      by (rule arg_cong)
    with n show False by simp
  qed
  then show ?thesis
    by (simp add: parse_meter_def split: list.splits option.splits)
qed

lemma int_body_chars: "int_body b \<Longrightarrow> \<forall>c\<in>set b. is_digit c \<or> c = CHR ''_''"
  by (induction b rule: int_body.induct) (auto split: if_splits)

lemma set_dropWhile_cover: "set xs \<subseteq> {c. P c} \<union> set (dropWhile P xs)"
  by (induction xs) auto

lemma set_strip_cover: "set s \<subseteq> {c. is_space c} \<union> set (strip s)"
proof -
  let ?d = "dropWhile is_space s"
  let ?e = "dropWhile is_space (rev ?d)"
  have 1: "set s \<subseteq> {c. is_space c} \<union> set ?d" by (rule set_dropWhile_cover)
  have "set (rev ?d) \<subseteq> {c. is_space c} \<union> set ?e" by (rule set_dropWhile_cover)
  then have 2: "set ?d \<subseteq> {c. is_space c} \<union> set ?e" by (simp only: set_rev)
  have 3: "set (strip s) = set ?e" by (simp only: strip_def set_rev)
  from 1 2 have "set s \<subseteq> {c. is_space c} \<union> set ?e" by blast
  then show ?thesis by (simp only: 3)
qed

lemma py_int_chars: "py_int p = Some v \<Longrightarrow> \<forall>c\<in>set p. literal_char c"
proof
  fix c assume v: "py_int p = Some v" and c: "c \<in> set p"
  let ?t = "strip p"
  let ?b = "if take 1 ?t = ''-'' \<or> take 1 ?t = ''+'' then drop 1 ?t else ?t"
  from v have b: "int_body ?b" by (simp add: py_int_def Let_def split: if_splits)
  have t: "set ?t \<subseteq> {CHR ''+'', CHR ''-''} \<union> set ?b"
    by (cases ?t) (auto split: if_splits)
  from c set_strip_cover [of p] have "is_space c \<or> c \<in> set ?t" by auto
  with t have "is_space c \<or> c \<in> {CHR ''+'', CHR ''-''} \<or> c \<in> set ?b" by auto
  with int_body_chars [OF b] show "literal_char c" by (auto simp: literal_char_def)
qed

lemma split_on_cover: "c \<in> set s \<Longrightarrow> c \<noteq> sep \<Longrightarrow> \<exists>p\<in>set (split_on sep s). c \<in> set p"
proof (induction s)
  case Nil
  then show ?case by simp
next
  case (Cons a s)
  obtain p ps where sp: "split_on sep s = p # ps"
    using split_on_nonempty [of sep s] by (cases "split_on sep s") auto
  show ?case
  proof (cases "a = sep")
    case True
    with Cons show ?thesis by auto
  next
    case False
    show ?thesis
    proof (cases "c = a")
      case True
      with False sp show ?thesis by simp
    next
      case False
      with Cons have "\<exists>q\<in>set (p # ps). c \<in> set q" by (simp add: sp)
      then show ?thesis using \<open>a \<noteq> sep\<close> sp by auto
    qed
  qed
qed

lemma parse_meter_chars:
  assumes "c \<in> set m" "\<not> literal_char c" "c \<noteq> CHR ''/''"
  shows "parse_meter m = None"
proof (rule ccontr)
  assume "parse_meter m \<noteq> None"
  then have "\<forall>p\<in>set (split_on CHR ''/'' m). \<exists>v. py_int p = Some v"
    by (auto simp: parse_meter_def split: list.splits option.splits)
  moreover obtain p where "p \<in> set (split_on CHR ''/'' m)" "c \<in> set p"
    using split_on_cover [OF assms(1) assms(3)] by blast
  ultimately show False using py_int_chars assms(2) by blast
qed

subsection \<open>Validation, header lines and the two loops of the assembler\<close>

lemma validate_bars_defined:
  "units_per_bar m ul = Inr upb \<Longrightarrow> upb \<noteq> 0 \<Longrightarrow> count_abc_units s = Inr u \<Longrightarrow>
   validate_bars s e m ul =
     (if \<bar>u / of_int upb - of_int e\<bar> < 1 / 100 then Inr (True, [])
      else Inr (False, bars_message e upb (u / of_int upb) u))"
  by (simp add: validate_bars_def Let_def)

lemma validate_bars_True:
  "validate_bars s e m ul = Inr (True, msg) \<Longrightarrow>
   msg = [] \<and> (\<exists>upb u. units_per_bar m ul = Inr upb \<and> upb \<noteq> 0 \<and> count_abc_units s = Inr u \<and>
      \<bar>u / of_int upb - of_int e\<bar> < 1 / 100)"
  by (auto simp: validate_bars_def Let_def split: sum.splits if_splits)

lemma show_nat_digits: "set (show_nat n) \<subseteq> set ''0123456789''"
proof (induction n rule: show_nat.induct)
  case (1 n)
  have d: "''0123456789'' ! k \<in> set ''0123456789''" if "k < 10" for k
    using that by (intro nth_mem) simp
  show ?case
  proof (cases "n < 10")
    case True
    then show ?thesis using d [of n] by (subst show_nat.simps) simp
  next
    case False
    have "n mod 10 < 10" by simp
    then show ?thesis using False 1 d [of "n mod 10"] by (subst show_nat.simps) simp
  qed
qed

lemma show_int_no_newline: "CHR 0x0A \<notin> set (show_int i)"
proof -
  have "CHR 0x0A \<notin> set (show_nat k)" for k
    using show_nat_digits [of k] by auto
  then show ?thesis by (simp add: show_int_def)
qed

lemma split_on_join:
  "xs \<noteq> [] \<Longrightarrow> \<forall>x\<in>set xs. sep \<notin> set x \<Longrightarrow> split_on sep (join [sep] xs) = xs"
proof (induction xs)
  case Nil
  then show ?case by simp
next
  case (Cons x xs)
  show ?case
  proof (cases xs)
    case Nil
    with Cons.prems show ?thesis by (simp add: split_on_no_sep)
  next
    case (Cons y ys)
    with Cons.IH Cons.prems have "split_on sep (join [sep] xs) = xs" by simp
    with Cons Cons.prems show ?thesis by (simp add: split_on_append)
  qed
qed

lemma validate_sections_title:
  "validate_sections secs (h\<lparr>title := t\<rparr>) = validate_sections secs h"
  by (induction secs) (simp_all split: sum.splits prod.splits)

lemma validate_sections_ok:
  "validate_sections secs h = Inr () \<longleftrightarrow>
   (\<forall>s\<in>set secs. validate_bars (abc s) (bars s) (meter h) (unit_length h) = Inr (True, []))"
proof (induction secs)
  case Nil
  show ?case by simp
next
  case (Cons s secs)
  show ?case
  proof (cases "validate_bars (abc s) (bars s) (meter h) (unit_length h)")
    case (Inl e)
    then show ?thesis by simp
  next
    case (Inr r)
    obtain valid err where r: "r = (valid, err)" by (cases r)
    show ?thesis
    proof (cases valid)
      case True
      from Inr r True
      have "validate_bars (abc s) (bars s) (meter h) (unit_length h) = Inr (True, err)"
        by simp
      then have "err = []" by (rule validate_bars_True [THEN conjunct1])
      with Inr r True Cons show ?thesis by simp
    next
      case False
      with Inr r show ?thesis by simp
    qed
  qed
qed

lemma validate_sections_first_invalid:
  "\<forall>p\<in>set pre. validate_bars (abc p) (bars p) (meter h) (unit_length h) = Inr (True, []) \<Longrightarrow>
   validate_bars (abc s) (bars s) (meter h) (unit_length h) = Inr (False, msg) \<Longrightarrow>
   validate_sections (pre @ s # post) h
     = Inl (ValueError (Lit (''Section '' @ [CHR 0x27] @ name s @ [CHR 0x27] @ '': '') # msg))"
  by (induction pre) simp_all

lemma assemble_body_known:
  "\<forall>n\<in>set ns. m n \<noteq> None \<Longrightarrow>
   assemble_body m ns acc
     = Inr (acc @ concat (map (\<lambda>n. [''% Section: '' @ n, abc (the (m n))]) ns))"
  by (induction ns arbitrary: acc) auto

lemma assemble_body_unknown:
  "\<forall>x\<in>set pre. m x \<noteq> None \<Longrightarrow> m n = None \<Longrightarrow>
   assemble_body m (pre @ n # post) acc = Inl (ValueError [Lit (''Unknown section: '' @ n)])"
  by (induction pre arbitrary: acc) auto

lemma assemble_body_Inr:
  "assemble_body m ns acc = Inr r \<Longrightarrow> \<forall>n\<in>set ns. m n \<noteq> None"
  by (induction ns arbitrary: acc) (auto split: option.splits)

lemma foldl_section_map:
  "foldl (\<lambda>m s. m(name s \<mapsto> s)) m0 secs n
     = (case filter (\<lambda>s. name s = n) secs of [] \<Rightarrow> m0 n | x # xs \<Rightarrow> Some (last (x # xs)))"
proof (induction secs arbitrary: m0)
  case Nil
  show ?case by simp
next
  case (Cons s secs)
  show ?case
    by (simp only: foldl_Cons Cons.IH) (simp split: list.splits)
qed

lemma section_map_last:
  "section_map secs n
     = (case filter (\<lambda>s. name s = n) secs of [] \<Rightarrow> None | x # xs \<Rightarrow> Some (last (x # xs)))"
  by (simp add: section_map_def foldl_section_map)

lemma section_map_known: "section_map secs n \<noteq> None \<longleftrightarrow> n \<in> name ` set secs"
proof -
  have "filter (\<lambda>s. name s = n) secs = [] \<longleftrightarrow> n \<notin> name ` set secs"
    by (auto simp: filter_empty_conv)
  then show ?thesis
    by (cases "filter (\<lambda>s. name s = n) secs") (simp_all add: section_map_last)
qed

subsection \<open>The example evaluated\<close>

lemma demo_units_per_bar: "units_per_bar (meter demo_header) (unit_length demo_header) = Inr 8"
  by (simp add: demo_header_def units_per_bar_def parse_meter_def match_unit_length_def
      py_int_def Let_def strip_def is_space_def is_digit_def digits_val_def digit_val_def)

lemma demo_count_A: "count_abc_units (abc section_A) = Inr 16"
  by (simp add: section_A_def eval_defs)

lemma demo_count_B: "count_abc_units (abc section_B) = Inr 16"
  by (simp add: section_B_def eval_defs)

lemma demo_count_short: "count_abc_units (abc section_short) = Inr 8"
  by (simp add: section_short_def eval_defs)

lemma demo_valid_A:
  "validate_bars (abc section_A) (bars section_A) (meter demo_header) (unit_length demo_header)
     = Inr (True, [])"
  by (simp add: validate_bars_def demo_units_per_bar demo_count_A) (simp add: section_A_def)

lemma demo_valid_B:
  "validate_bars (abc section_B) (bars section_B) (meter demo_header) (unit_length demo_header)
     = Inr (True, [])"
  by (simp add: validate_bars_def demo_units_per_bar demo_count_B) (simp add: section_B_def)

lemma demo_invalid_short:
  "validate_bars (abc section_short) (bars section_short) (meter demo_header)
     (unit_length demo_header)
     = Inr (False, [Lit ''Expected 2 bars (16 units), got '', Fixed2 1, Lit '' bars ('',
         FloatStr 8, Lit '' units)''])"
  by (simp add: validate_bars_def demo_units_per_bar demo_count_short)
     (simp add: section_short_def bars_message_def show_int_def show_nat.simps)

lemma demo_sections_valid: "validate_sections [section_A, section_B] demo_header = Inr ()"
  by (simp add: demo_valid_A demo_valid_B)

lemma demo_header_block:
  "generate_abc_header (demo_header\<lparr>title := title demo_header @ '' - '' @ ''bass''\<rparr>) 1
     = join [CHR 0x0A] [''X:1'', ''T:Song - bass'', ''M:4/4'', ''L:1/8'', ''K:C'',
         ''%%MIDI program 0'', ''%%MIDI channel 1'']"
  by (simp add: generate_abc_header_def header_lines_def demo_header_def show_int_def
      show_nat.simps)

lemma demo_section_map:
  "section_map [section_A, section_B] ''A'' = Some section_A"
  "section_map [section_A, section_B] ''B'' = Some section_B"
  "section_map [section_A, section_B] ''X'' = None"
  by (simp_all add: section_map_def section_A_def section_B_def)

lemma demo_document:
  "snd (assemble_instrument ''bass'' [section_A, section_B] [''A'', ''B'', ''A''] demo_header
         None None)
     = Inr (join [CHR 0x0A] [''X:1'', ''T:Song - bass'', ''M:4/4'', ''L:1/8'', ''K:C'',
         ''%%MIDI program 0'', ''%%MIDI channel 1'', [],
         ''% Section: A'', ''C2C2C2C2 | C2C2C2C2 |'',
         ''% Section: B'', ''z8 | z8 |'',
         ''% Section: A'', ''C2C2C2C2 | C2C2C2C2 |''])"
proof -
  have b: "assemble_body (section_map [section_A, section_B]) [''A'', ''B'', ''A''] acc
      = Inr (acc @ [''% Section: A'', abc section_A, ''% Section: B'', abc section_B,
          ''% Section: A'', abc section_A])" for acc
    by (simp add: demo_section_map)
  have "snd (assemble_instrument ''bass'' [section_A, section_B] [''A'', ''B'', ''A''] demo_header
         None None)
     = Inr (join [CHR 0x0A]
         ([generate_abc_header (demo_header\<lparr>title := title demo_header @ '' - '' @ ''bass''\<rparr>) 1,
           []] @
          [''% Section: A'', abc section_A, ''% Section: B'', abc section_B,
           ''% Section: A'', abc section_A]))"
    unfolding assemble_instrument_def demo_sections_valid Let_def b by simp
  then show ?thesis
    using demo_header_block by (simp add: section_A_def section_B_def)
qed

subsection \<open>Claims\<close>

text \<open>
  Claim C2. For a meter written \<open>N/D\<close> with \<open>N\<close> and \<open>D\<close> runs of digits of positive
  value, and a unit length that begins with \<open>1/\<close> and a run of digits \<open>U\<close> (the run ends
  where the string ends or a character that is not a digit follows),
  \<open>units_per_bar\<close> returns \<open>(N * U) div D\<close>, the floor of the quotient. When the unit
  length does not begin with \<open>1/\<close> and a digit, it returns 8. In particular
  \<open>4/4\<close> with \<open>1/8\<close> gives 8 and \<open>3/4\<close> with \<open>1/8\<close> gives 6.
\<close>

theorem units_per_bar_formula:
  "(digit_run ns \<and> digit_run ds \<and> 0 < digits_val ns \<and> 0 < digits_val ds \<longrightarrow>
      (digit_run us \<and> (rest = [] \<or> \<not> is_digit (hd rest)) \<longrightarrow>
         units_per_bar (ns @ ''/'' @ ds) (''1/'' @ us @ rest)
           = Inr ((digits_val ns * digits_val us) div digits_val ds)) \<and>
      (\<not> (\<exists>us rest. ul = ''1/'' @ us @ rest \<and> digit_run us) \<longrightarrow>
         units_per_bar (ns @ ''/'' @ ds) ul = Inr 8)) \<and>
   units_per_bar ''4/4'' ''1/8'' = Inr 8 \<and>
   units_per_bar ''3/4'' ''1/8'' = Inr 6"
proof -
  have ex: "units_per_bar ''4/4'' ''1/8'' = Inr 8" "units_per_bar ''3/4'' ''1/8'' = Inr 6"
    by (simp_all add: units_per_bar_def parse_meter_def match_unit_length_def py_int_def
        strip_def is_space_def is_digit_def digits_val_def digit_val_def)
  have a: "units_per_bar (ns @ ''/'' @ ds) (''1/'' @ us @ rest)
      = Inr ((digits_val ns * digits_val us) div digits_val ds)"
    if "digit_run ns" "digit_run ds" "0 < digits_val ds" "digit_run us"
      "rest = [] \<or> \<not> is_digit (hd rest)"
    using that parse_meter_digits [of ns ds] match_unit_length_run [of us rest]
    by (simp add: units_per_bar_def py_int_digits)
  have b: "units_per_bar (ns @ ''/'' @ ds) ul = Inr 8"
    if "digit_run ns" "digit_run ds" "\<not> (\<exists>us rest. ul = ''1/'' @ us @ rest \<and> digit_run us)"
    using that parse_meter_digits [of ns ds] match_unit_length_None [of ul]
    by (simp add: units_per_bar_def)
  show ?thesis using ex a b by blast
qed

theorem units_per_bar_formula_witness:
  "digit_run ''6'' \<and> digit_run ''8'' \<and> 0 < digits_val ''6'' \<and> 0 < digits_val ''8'' \<and>
   digit_run ''16'' \<and> \<not> is_digit (hd '' '') \<and>
   units_per_bar (''6'' @ ''/'' @ ''8'') (''1/'' @ ''16'' @ '' '') = Inr 12 \<and>
   \<not> (\<exists>us rest. ''eighth'' = ''1/'' @ us @ rest \<and> digit_run us) \<and>
   units_per_bar (''6'' @ ''/'' @ ''8'') ''eighth'' = Inr 8"
  using units_per_bar_formula [of "''6''" "''8''" "''16''" "'' ''" "''eighth''"]
  by (simp add: digit_run_def is_digit_def digits_val_def digit_val_def)

text \<open>
  Claim C9. The well-formed pair meter \<open>1/8\<close>, unit length \<open>1/4\<close> makes \<open>units_per_bar\<close>
  return 0, the floor of \<open>4 / 8\<close>. For every meter and unit length where \<open>units_per_bar\<close>
  returns 0, \<open>validate_bars\<close> raises \<open>ZeroDivisionError\<close> on every text and every
  expected bar count: nothing guards the division. So the error is reached through
  \<open>validate_bars\<close> itself.
\<close>

theorem validate_bars_division_by_zero:
  "units_per_bar ''1/8'' ''1/4'' = Inr 0 \<and>
   (units_per_bar m ul = Inr 0 \<longrightarrow> validate_bars s expected_bars m ul = Inl ZeroDivisionError) \<and>
   validate_bars s expected_bars ''1/8'' ''1/4'' = Inl ZeroDivisionError"
proof -
  have z: "units_per_bar ''1/8'' ''1/4'' = Inr 0"
    by (simp add: units_per_bar_def parse_meter_def match_unit_length_def py_int_def
        strip_def is_space_def is_digit_def digits_val_def digit_val_def)
  have g: "validate_bars s expected_bars m' ul' = Inl ZeroDivisionError"
    if "units_per_bar m' ul' = Inr 0" for m' ul'
    using that count_abc_units_cases [of s] by (auto simp: validate_bars_def)
  show ?thesis using z g by blast
qed

theorem validate_bars_division_by_zero_witness:
  "units_per_bar ''2/16'' ''1/4'' = Inr 0 \<and>
   validate_bars ''C2 z2'' 1 ''2/16'' ''1/4'' = Inl ZeroDivisionError"
proof -
  have z: "units_per_bar ''2/16'' ''1/4'' = Inr 0"
    by (simp add: units_per_bar_def parse_meter_def match_unit_length_def py_int_def
        strip_def is_space_def is_digit_def digits_val_def digit_val_def)
  with validate_bars_division_by_zero [of "''2/16''" "''1/4''" "''C2 z2''" 1]
  show ?thesis by simp
qed

text \<open>
  Claim C3, as the code has it. The tokens are the matches of the note pattern in the
  cleaned text, in scan order. When no token has a slash and a denominator of value zero,
  \<open>count_abc_units\<close> returns the sum of the token durations, each resolved by the first
  case that applies: numerator, slash and denominator give numerator / denominator;
  slash and denominator give 1 / denominator; a numerator gives the numerator; otherwise
  1. When some token has a zero denominator the call raises \<open>ZeroDivisionError\<close>. Text
  that matches nothing is skipped: a text whose cleaned form has no note letter counts 0.
  A bracketed group in front of a text, free of double quote, bar line, percent sign,
  closing bracket and line feed, adds nothing to the count of the text. \<open>C\<close> counts 1,
  \<open>C2\<close> 2, \<open>C/2\<close> one half, \<open>C3/2\<close> three halves, \<open>z4\<close> 4 and \<open>[CEG]\<close> 0.
\<close>

theorem count_abc_units_token_sum:
  "((\<forall>t\<in>set (tokens (clean s)). \<not> zero_denominator t) \<longrightarrow>
      count_abc_units s = Inr (sum_list (map token_duration (tokens (clean s))))) \<and>
   ((\<exists>t\<in>set (tokens (clean s)). zero_denominator t) \<longrightarrow>
      count_abc_units s = Inl ZeroDivisionError) \<and>
   ((\<forall>c\<in>set (clean s). \<not> is_note c) \<longrightarrow> count_abc_units s = Inr 0) \<and>
   (set g \<inter> {CHR 0x22, CHR ''|'', CHR ''%'', CHR '']'', CHR 0x0A} = {} \<longrightarrow>
      count_abc_units (''['' @ g @ '']'' @ r) = count_abc_units r) \<and>
   count_abc_units ''C'' = Inr 1 \<and>
   count_abc_units ''C2'' = Inr 2 \<and>
   count_abc_units ''C/2'' = Inr (1 / 2) \<and>
   count_abc_units ''C3/2'' = Inr (3 / 2) \<and>
   count_abc_units ''z4'' = Inr 4 \<and>
   count_abc_units ''[CEG]'' = Inr 0"
proof -
  have n: "count_abc_units s = Inr 0" if "\<forall>c\<in>set (clean s). \<not> is_note c"
    using tokens_no_note [OF that] by (simp add: count_abc_units_def)
  have g: "count_abc_units (''['' @ g @ '']'' @ r) = count_abc_units r"
    if "set g \<inter> {CHR 0x22, CHR ''|'', CHR ''%'', CHR '']'', CHR 0x0A} = {}"
    using clean_group [OF that, of r] by (simp add: count_abc_units_def)
  show ?thesis
    using count_abc_units_sum [of s] count_abc_units_zero [of s] n g count_example_C count_example_C2 count_example_C_half count_example_C3_2 count_example_z4 count_example_chord
    by blast
qed

theorem count_abc_units_token_sum_witness:
  "tokens (clean ''^C,3/2 z/4 [CEG]2 | e8 %%x'')
     = [(''3'', ''/'', ''2''), ([], ''/'', ''4''), (''8'', [], [])] \<and>
   count_abc_units ''^C,3/2 z/4 [CEG]2 | e8 %%x'' = Inr (39 / 4) \<and>
   tokens (clean ''C z2/0'') = [([], [], []), (''2'', ''/'', ''0'')] \<and>
   zero_denominator (''2'', ''/'', ''0'') \<and>
   count_abc_units ''C z2/0'' = Inl ZeroDivisionError \<and>
   clean ''| 12 |'' = ''  12  '' \<and> count_abc_units ''| 12 |'' = Inr 0 \<and>
   set ''^c/2e'' \<inter> {CHR 0x22, CHR ''|'', CHR ''%'', CHR '']'', CHR 0x0A} = {} \<and>
   count_abc_units (''['' @ ''^c/2e'' @ '']'' @ ''z3'') = count_abc_units ''z3''"
proof -
  have t1: "tokens (clean ''^C,3/2 z/4 [CEG]2 | e8 %%x'')
      = [(''3'', ''/'', ''2''), ([], ''/'', ''4''), (''8'', [], [])]"
    by (simp add: clean_def match_note_def match_tail_def is_accidental_def is_note_def
        is_octave_def is_digit_def)
  have t2: "tokens (clean ''C z2/0'') = [([], [], []), (''2'', ''/'', ''0'')]"
    by (simp add: clean_def match_note_def match_tail_def is_accidental_def is_note_def
        is_octave_def is_digit_def)
  have t3: "clean ''| 12 |'' = ''  12  ''" by (simp add: clean_def)
  have z: "zero_denominator (''2'', ''/'', ''0'')"
    by (simp add: zero_denominator_def digits_val_def digit_val_def)
  have w1: "count_abc_units ''^C,3/2 z/4 [CEG]2 | e8 %%x'' = Inr (39 / 4)"
    using count_abc_units_token_sum [of "''^C,3/2 z/4 [CEG]2 | e8 %%x''" "[]" "[]"]
    by (simp add: t1 zero_denominator_def token_duration_def digits_val_def digit_val_def)
  have w2: "count_abc_units ''C z2/0'' = Inl ZeroDivisionError"
    using count_abc_units_token_sum [of "''C z2/0''" "[]" "[]"] z
    by (simp add: t2)
  have w3: "count_abc_units ''| 12 |'' = Inr 0"
    using count_abc_units_token_sum [of "''| 12 |''" "[]" "[]"]
    by (simp add: t3 is_note_def)
  have g: "set ''^c/2e'' \<inter> {CHR 0x22, CHR ''|'', CHR ''%'', CHR '']'', CHR 0x0A} = {}"
    by simp
  have w4: "count_abc_units (''['' @ ''^c/2e'' @ '']'' @ ''z3'') = count_abc_units ''z3''"
    using count_abc_units_token_sum [of "[]" "''^c/2e''" "''z3''"] g by blast
  from t1 w1 t2 z w2 t3 w3 g w4 show ?thesis by (intro conjI)
qed

text \<open>
  Claim C3 as stated says that every text has a sum that is returned. The text \<open>C/0\<close>
  has none: its one token has the denominator 0 and the division raises.
\<close>

theorem count_abc_units_zero_denominator_raises:
  "count_abc_units ''C/0'' = Inl ZeroDivisionError"
  by (simp add: eval_defs)



text \<open>
  Claim C1, as the code has it. \<open>validate_bars\<close> succeeds, returning \<open>True\<close> with the
  empty message, exactly when \<open>units_per_bar\<close> returns a non-zero \<open>upb\<close>,
  \<open>count_abc_units\<close> returns \<open>u\<close>, and the actual bar count \<open>u / upb\<close> differs from the
  expected bar count by less than 0.01. Whenever \<open>units_per_bar\<close> returns a non-zero
  \<open>upb\<close> and the parser returns \<open>u\<close>: a text of exactly \<open>expected_bars * upb\<close> units
  validates;
  an actual bar count of \<open>expected_bars + 0.0099\<close> validates; one of
  \<open>expected_bars + 0.011\<close>, or any outside the tolerance, fails, and the message then
  reports the expected unit count \<open>expected_bars * upb\<close>, the actual bar count in the
  two-decimal format, and the actual unit count.
\<close>

theorem validate_bars_tolerance:
  "(validate_bars s e m ul = Inr (True, []) \<longleftrightarrow>
      (\<exists>upb u. units_per_bar m ul = Inr upb \<and> upb \<noteq> 0 \<and> count_abc_units s = Inr u \<and>
         \<bar>u / of_int upb - of_int e\<bar> < 1 / 100)) \<and>
   (units_per_bar m ul = Inr upb \<and> upb \<noteq> 0 \<and> count_abc_units s = Inr u \<longrightarrow>
      (u = of_int (e * upb) \<longrightarrow> validate_bars s e m ul = Inr (True, [])) \<and>
      (u / of_int upb = of_int e + 99 / 10000 \<longrightarrow> validate_bars s e m ul = Inr (True, [])) \<and>
      (u / of_int upb = of_int e + 11 / 1000 \<or> \<not> \<bar>u / of_int upb - of_int e\<bar> < 1 / 100 \<longrightarrow>
         validate_bars s e m ul = Inr (False,
           [Lit (''Expected '' @ show_int e @ '' bars ('' @ show_int (e * upb) @ '' units), got ''),
            Fixed2 (u / of_int upb), Lit '' bars ('', FloatStr u, Lit '' units)''])))"
proof -
  have iff: "validate_bars s e m ul = Inr (True, []) \<longleftrightarrow>
      (\<exists>upb u. units_per_bar m ul = Inr upb \<and> upb \<noteq> 0 \<and> count_abc_units s = Inr u \<and>
         \<bar>u / of_int upb - of_int e\<bar> < 1 / 100)"
    using validate_bars_True [of s e m ul "[]"] validate_bars_defined [of m ul _ s _ e]
    by (metis (full_types))
  have rest: "(u = of_int (e * upb) \<longrightarrow> validate_bars s e m ul = Inr (True, [])) \<and>
      (u / of_int upb = of_int e + 99 / 10000 \<longrightarrow> validate_bars s e m ul = Inr (True, [])) \<and>
      (u / of_int upb = of_int e + 11 / 1000 \<or> \<not> \<bar>u / of_int upb - of_int e\<bar> < 1 / 100 \<longrightarrow>
         validate_bars s e m ul = Inr (False,
           [Lit (''Expected '' @ show_int e @ '' bars ('' @ show_int (e * upb) @ '' units), got ''),
            Fixed2 (u / of_int upb), Lit '' bars ('', FloatStr u, Lit '' units)'']))"
    if d: "units_per_bar m ul = Inr upb" "upb \<noteq> 0" "count_abc_units s = Inr u"
  proof -
    note v = validate_bars_defined [OF d, of e]
    have 1: "validate_bars s e m ul = Inr (True, [])" if "u = of_int (e * upb)"
      using v that d(2) by simp
    have 2: "validate_bars s e m ul = Inr (True, [])" if "u / of_int upb = of_int e + 99 / 10000"
      using v that by simp
    have 3: "validate_bars s e m ul = Inr (False, bars_message e upb (u / of_int upb) u)"
      if "u / of_int upb = of_int e + 11 / 1000 \<or> \<not> \<bar>u / of_int upb - of_int e\<bar> < 1 / 100"
      using v that by auto
    show ?thesis using 1 2 3 by (simp add: bars_message_def)
  qed
  show ?thesis using iff rest by blast
qed

theorem validate_bars_tolerance_witness:
  "units_per_bar ''4/4'' ''1/8'' = Inr 8 \<and> (8::int) \<noteq> 0 \<and>
   count_abc_units ''C2C2C2C2 | C2C2C2C2 |'' = Inr 16 \<and> (16::rat) = of_int (2 * 8) \<and>
   validate_bars ''C2C2C2C2 | C2C2C2C2 |'' 2 ''4/4'' ''1/8'' = Inr (True, []) \<and>
   count_abc_units ''z10099/1250'' = Inr (10099 / 1250) \<and>
   (10099 / 1250 :: rat) / of_int 8 = of_int 1 + 99 / 10000 \<and>
   validate_bars ''z10099/1250'' 1 ''4/4'' ''1/8'' = Inr (True, []) \<and>
   count_abc_units ''z1011/125'' = Inr (1011 / 125) \<and>
   (1011 / 125 :: rat) / of_int 8 = of_int 1 + 11 / 1000 \<and>
   validate_bars ''z1011/125'' 1 ''4/4'' ''1/8'' = Inr (False,
     [Lit ''Expected 1 bars (8 units), got '', Fixed2 (1011 / 1000), Lit '' bars ('',
      FloatStr (1011 / 125), Lit '' units)''])"
proof -
  have u: "units_per_bar ''4/4'' ''1/8'' = Inr 8"
    by (simp add: units_per_bar_def parse_meter_def match_unit_length_def py_int_def
        strip_def is_space_def is_digit_def digits_val_def digit_val_def)
  have c1: "count_abc_units ''C2C2C2C2 | C2C2C2C2 |'' = Inr 16" by (simp add: eval_defs)
  have c2: "count_abc_units ''z10099/1250'' = Inr (10099 / 1250)" by (simp add: eval_defs)
  have c3: "count_abc_units ''z1011/125'' = Inr (1011 / 125)" by (simp add: eval_defs)
  show ?thesis
    using validate_bars_tolerance [of "''C2C2C2C2 | C2C2C2C2 |''" 2 "''4/4''" "''1/8''" 8 16]
      validate_bars_tolerance [of "''z10099/1250''" 1 "''4/4''" "''1/8''" 8 "10099 / 1250"]
      validate_bars_tolerance [of "''z1011/125''" 1 "''4/4''" "''1/8''" 8 "1011 / 125"]
    by (simp add: u c1 c2 c3 show_int_def show_nat.simps)
qed

text \<open>
  Claim C1 as stated says that a text of exactly \<open>expected_bars * units_per_bar\<close> units
  always validates. With the meter \<open>1/8\<close> and the unit length \<open>1/4\<close> a bar has 0 units;
  the empty text has 0 units, which is \<open>5 * 0\<close>, and its validation against 5 bars raises
  \<open>ZeroDivisionError\<close>.
\<close>

theorem validate_bars_exact_units_raises:
  "units_per_bar ''1/8'' ''1/4'' = Inr 0 \<and>
   count_abc_units [] = Inr (of_int (5 * 0)) \<and>
   validate_bars [] 5 ''1/8'' ''1/4'' = Inl ZeroDivisionError"
proof -
  have u: "units_per_bar ''1/8'' ''1/4'' = Inr 0"
    by (simp add: units_per_bar_def parse_meter_def match_unit_length_def py_int_def Let_def
        strip_def is_space_def is_digit_def digits_val_def digit_val_def)
  have c: "count_abc_units [] = Inr 0"
    by (simp add: count_abc_units_def clean_def)
  have "validate_bars [] 5 ''1/8'' ''1/4'' = Inl ZeroDivisionError"
    by (simp add: validate_bars_def u c)
  with u c show ?thesis by simp
qed

text \<open>
  Claim C5, as the code has it. Only the unit length has a fallback. A meter that
  \<open>parse_meter\<close> rejects raises \<open>ValueError\<close> whatever the unit length is; that is so
  for every meter whose number of slashes is not one, and for every meter with a
  character that is neither a slash nor a character of an integer literal. When the
  meter parses and the unit length does not begin with \<open>1/\<close> and a digit,
  \<open>units_per_bar\<close> returns 8 without raising.
\<close>

theorem units_per_bar_malformed:
  "(parse_meter m = None \<longrightarrow> units_per_bar m ul = Inl ValueError_literal) \<and>
   (length (filter (\<lambda>c. c = CHR ''/'') m) \<noteq> 1 \<longrightarrow> units_per_bar m ul = Inl ValueError_literal) \<and>
   ((\<exists>c\<in>set m. \<not> literal_char c \<and> c \<noteq> CHR ''/'') \<longrightarrow> units_per_bar m ul = Inl ValueError_literal) \<and>
   (parse_meter m \<noteq> None \<and> \<not> (\<exists>us rest. ul = ''1/'' @ us @ rest \<and> digit_run us) \<longrightarrow>
      units_per_bar m ul = Inr 8)"
proof -
  have a: "units_per_bar m ul = Inl ValueError_literal" if "parse_meter m = None"
    using that by (simp add: units_per_bar_def)
  have b: "units_per_bar m ul = Inr 8"
    if p: "parse_meter m \<noteq> None"
      and u: "\<not> (\<exists>us rest. ul = ''1/'' @ us @ rest \<and> digit_run us)"
  proof -
    from p obtain n d where "parse_meter m = Some (n, d)" by (cases "parse_meter m") auto
    moreover from u have "match_unit_length ul = None" by (rule match_unit_length_None)
    ultimately show ?thesis by (simp add: units_per_bar_def)
  qed
  have c: "units_per_bar m ul = Inl ValueError_literal"
    if "length (filter (\<lambda>c. c = CHR ''/'') m) \<noteq> 1"
    using a parse_meter_slashes [OF that] by simp
  have d: "units_per_bar m ul = Inl ValueError_literal"
    if "\<exists>c\<in>set m. \<not> literal_char c \<and> c \<noteq> CHR ''/''"
  proof -
    from that obtain c where "c \<in> set m" "\<not> literal_char c" "c \<noteq> CHR ''/''" by blast
    then have "parse_meter m = None" by (rule parse_meter_chars)
    then show ?thesis by (rule a)
  qed
  show ?thesis
  proof (intro conjI impI)
    assume "parse_meter m = None"
    then show "units_per_bar m ul = Inl ValueError_literal" by (rule a)
  next
    assume "length (filter (\<lambda>c. c = CHR ''/'') m) \<noteq> 1"
    then show "units_per_bar m ul = Inl ValueError_literal" by (rule c)
  next
    assume "\<exists>c\<in>set m. \<not> literal_char c \<and> c \<noteq> CHR ''/''"
    then show "units_per_bar m ul = Inl ValueError_literal" by (rule d)
  next
    assume "parse_meter m \<noteq> None \<and> \<not> (\<exists>us rest. ul = ''1/'' @ us @ rest \<and> digit_run us)"
    then show "units_per_bar m ul = Inr 8" by (intro b) simp_all
  qed
qed

theorem units_per_bar_malformed_witness:
  "parse_meter ''4:4'' = None \<and> units_per_bar ''4:4'' ''1/8'' = Inl ValueError_literal \<and>
   length (filter (\<lambda>c. c = CHR ''/'') ''6/8/2'') \<noteq> 1 \<and>
   units_per_bar ''6/8/2'' ''1/8'' = Inl ValueError_literal \<and>
   (\<exists>c\<in>set ''4/x''. \<not> literal_char c \<and> c \<noteq> CHR ''/'') \<and>
   units_per_bar ''4/x'' ''1/8'' = Inl ValueError_literal \<and>
   parse_meter ''3/4'' \<noteq> None \<and> \<not> (\<exists>us rest. ''eighth'' = ''1/'' @ us @ rest \<and> digit_run us) \<and>
   units_per_bar ''3/4'' ''eighth'' = Inr 8"
proof -
  have p1: "parse_meter ''4:4'' = None"
    by (simp add: parse_meter_def py_int_def Let_def strip_def is_space_def is_digit_def)
  have p2: "parse_meter ''3/4'' \<noteq> None"
    by (simp add: parse_meter_def py_int_def Let_def strip_def is_space_def is_digit_def)
  have p3: "\<exists>c\<in>set ''4/x''. \<not> literal_char c \<and> c \<noteq> CHR ''/''"
    by (simp add: literal_char_def is_space_def is_digit_def)
  have p4: "length (filter (\<lambda>c. c = CHR ''/'') ''6/8/2'') \<noteq> 1" by simp
  have p5: "\<not> (\<exists>us rest. ''eighth'' = ''1/'' @ us @ rest \<and> digit_run us)" by simp
  have w1: "units_per_bar ''4:4'' ''1/8'' = Inl ValueError_literal"
    using units_per_bar_malformed [of "''4:4''" "''1/8''"] p1 by blast
  have w2: "units_per_bar ''6/8/2'' ''1/8'' = Inl ValueError_literal"
    using units_per_bar_malformed [of "''6/8/2''" "''1/8''"] p4 by blast
  have w3: "units_per_bar ''4/x'' ''1/8'' = Inl ValueError_literal"
    using units_per_bar_malformed [of "''4/x''" "''1/8''"] p3 by blast
  have w4: "units_per_bar ''3/4'' ''eighth'' = Inr 8"
    using units_per_bar_malformed [of "''3/4''" "''eighth''"] p2 p5 by blast
  from p1 w1 p4 w2 p3 w3 p2 p5 w4 show ?thesis by (intro conjI)
qed

text \<open>
  Claim C5 as stated says that a malformed meter falls back to 8. The meter
  \<open>four-four\<close> with the unit length \<open>1/8\<close> raises \<open>ValueError\<close> instead.
\<close>

theorem units_per_bar_malformed_meter_raises: "units_per_bar ''four-four'' ''1/8'' = Inl ValueError_literal"
  by (simp add: units_per_bar_def parse_meter_def py_int_def Let_def strip_def is_space_def
        is_digit_def)

text \<open>
  Claim C8. \<open>generate_abc_header\<close> is the newline-join of the lines index, title, meter,
  unit length, then the tempo line when the tempo is present, then key, program
  directive and channel directive, in this order. With the tempo unset the output is the
  join of the seven other lines; with the tempo 120 the fifth line is \<open>Q:1/4=120\<close>. When
  no text field holds a line feed, the lines of the output are exactly these lines, and
  with the tempo unset none of them begins with \<open>Q:\<close>.
\<close>

theorem generate_abc_header_lines:
  "generate_abc_header h i = join [CHR 0x0A]
     ([''X:'' @ show_int i, ''T:'' @ title h, ''M:'' @ meter h, ''L:'' @ unit_length h] @
      (case tempo h of None \<Rightarrow> [] | Some t \<Rightarrow> [''Q:1/4='' @ show_int t]) @
      [''K:'' @ key h, ''%%MIDI program '' @ show_int (midi_program h),
       ''%%MIDI channel '' @ show_int (midi_channel h)]) \<and>
   (tempo h = None \<longrightarrow>
      generate_abc_header h i = join [CHR 0x0A]
        [''X:'' @ show_int i, ''T:'' @ title h, ''M:'' @ meter h, ''L:'' @ unit_length h,
         ''K:'' @ key h, ''%%MIDI program '' @ show_int (midi_program h),
         ''%%MIDI channel '' @ show_int (midi_channel h)]) \<and>
   (tempo h = Some 120 \<longrightarrow>
      generate_abc_header h i = join [CHR 0x0A]
        [''X:'' @ show_int i, ''T:'' @ title h, ''M:'' @ meter h, ''L:'' @ unit_length h,
         ''Q:1/4=120'',
         ''K:'' @ key h, ''%%MIDI program '' @ show_int (midi_program h),
         ''%%MIDI channel '' @ show_int (midi_channel h)]) \<and>
   (CHR 0x0A \<notin> set (title h) \<union> set (meter h) \<union> set (unit_length h) \<union> set (key h) \<longrightarrow>
      split_on CHR 0x0A (generate_abc_header h i) =
        [''X:'' @ show_int i, ''T:'' @ title h, ''M:'' @ meter h, ''L:'' @ unit_length h] @
        (case tempo h of None \<Rightarrow> [] | Some t \<Rightarrow> [''Q:1/4='' @ show_int t]) @
        [''K:'' @ key h, ''%%MIDI program '' @ show_int (midi_program h),
         ''%%MIDI channel '' @ show_int (midi_channel h)] \<and>
      (tempo h = None \<longrightarrow>
         (\<forall>l\<in>set (split_on CHR 0x0A (generate_abc_header h i)). take 2 l \<noteq> ''Q:'')))"
proof -
  let ?ls = "[''X:'' @ show_int i, ''T:'' @ title h, ''M:'' @ meter h, ''L:'' @ unit_length h] @
      (case tempo h of None \<Rightarrow> [] | Some t \<Rightarrow> [''Q:1/4='' @ show_int t]) @
      [''K:'' @ key h, ''%%MIDI program '' @ show_int (midi_program h),
       ''%%MIDI channel '' @ show_int (midi_channel h)]"
  have l: "header_lines h i = ?ls"
    by (simp add: header_lines_def Let_def split: option.splits)
  have g: "generate_abc_header h i = join [CHR 0x0A] ?ls"
    by (simp only: generate_abc_header_def l)
  have s120: "show_int 120 = ''120''"
    by (simp add: show_int_def show_nat.simps)
  have n: "generate_abc_header h i = join [CHR 0x0A]
        [''X:'' @ show_int i, ''T:'' @ title h, ''M:'' @ meter h, ''L:'' @ unit_length h,
         ''K:'' @ key h, ''%%MIDI program '' @ show_int (midi_program h),
         ''%%MIDI channel '' @ show_int (midi_channel h)]" if "tempo h = None"
    unfolding g using that by simp
  have q: "generate_abc_header h i = join [CHR 0x0A]
        [''X:'' @ show_int i, ''T:'' @ title h, ''M:'' @ meter h, ''L:'' @ unit_length h,
         ''Q:1/4=120'',
         ''K:'' @ key h, ''%%MIDI program '' @ show_int (midi_program h),
         ''%%MIDI channel '' @ show_int (midi_channel h)]" if "tempo h = Some 120"
    unfolding g using that by (simp add: s120)
  have sp: "split_on CHR 0x0A (generate_abc_header h i) = ?ls"
    if f: "CHR 0x0A \<notin> set (title h) \<union> set (meter h) \<union> set (unit_length h) \<union> set (key h)"
  proof -
    have "\<forall>x\<in>set ?ls. CHR 0x0A \<notin> set x"
      using f by (auto simp: show_int_no_newline split: option.splits)
    moreover have "?ls \<noteq> []" by simp
    ultimately have "split_on CHR 0x0A (join [CHR 0x0A] ?ls) = ?ls"
      by (intro split_on_join)
    then show ?thesis by (simp only: g)
  qed
  have nq: "\<forall>l\<in>set (split_on CHR 0x0A (generate_abc_header h i)). take 2 l \<noteq> ''Q:''"
    if f: "CHR 0x0A \<notin> set (title h) \<union> set (meter h) \<union> set (unit_length h) \<union> set (key h)"
      and t: "tempo h = None"
    unfolding sp [OF f] using t by simp
  show ?thesis
    using g n q sp nq by blast
qed

theorem generate_abc_header_lines_witness:
  "tempo \<lparr>title = ''Demo'', meter = ''4/4'', unit_length = ''1/8'', tempo = None, key = ''C'',
          midi_program = 33, midi_channel = 2\<rparr> = None \<and>
   CHR 0x0A \<notin> set ''Demo'' \<union> set ''4/4'' \<union> set ''1/8'' \<union> set ''C'' \<and>
   split_on CHR 0x0A (generate_abc_header
      \<lparr>title = ''Demo'', meter = ''4/4'', unit_length = ''1/8'', tempo = None, key = ''C'',
       midi_program = 33, midi_channel = 2\<rparr> 1)
     = [''X:1'', ''T:Demo'', ''M:4/4'', ''L:1/8'', ''K:C'', ''%%MIDI program 33'',
        ''%%MIDI channel 2''] \<and>
   tempo \<lparr>title = ''Demo'', meter = ''4/4'', unit_length = ''1/8'', tempo = Some 120, key = ''C'',
          midi_program = 33, midi_channel = 2\<rparr> = Some 120 \<and>
   generate_abc_header
      \<lparr>title = ''Demo'', meter = ''4/4'', unit_length = ''1/8'', tempo = Some 120, key = ''C'',
       midi_program = 33, midi_channel = 2\<rparr> 1
     = join [CHR 0x0A] [''X:1'', ''T:Demo'', ''M:4/4'', ''L:1/8'', ''Q:1/4=120'', ''K:C'',
        ''%%MIDI program 33'', ''%%MIDI channel 2'']"
proof -
  have s: "show_int 1 = ''1''" "show_int 2 = ''2''" "show_int 33 = ''33''"
    "show_int 120 = ''120''"
    by (simp_all add: show_int_def show_nat.simps)
  have w1: "split_on CHR 0x0A (generate_abc_header
      \<lparr>title = ''Demo'', meter = ''4/4'', unit_length = ''1/8'', tempo = None, key = ''C'',
       midi_program = 33, midi_channel = 2\<rparr> 1)
     = [''X:1'', ''T:Demo'', ''M:4/4'', ''L:1/8'', ''K:C'', ''%%MIDI program 33'',
        ''%%MIDI channel 2'']"
    using generate_abc_header_lines [of "\<lparr>title = ''Demo'', meter = ''4/4'', unit_length = ''1/8'', tempo = None,
          key = ''C'', midi_program = 33, midi_channel = 2\<rparr>" 1]
    by (simp add: s)
  have w2: "generate_abc_header
      \<lparr>title = ''Demo'', meter = ''4/4'', unit_length = ''1/8'', tempo = Some 120, key = ''C'',
       midi_program = 33, midi_channel = 2\<rparr> 1
     = join [CHR 0x0A] [''X:1'', ''T:Demo'', ''M:4/4'', ''L:1/8'', ''Q:1/4=120'', ''K:C'',
        ''%%MIDI program 33'', ''%%MIDI channel 2'']"
    using generate_abc_header_lines [of "\<lparr>title = ''Demo'', meter = ''4/4'', unit_length = ''1/8'', tempo = Some 120,
          key = ''C'', midi_program = 33, midi_channel = 2\<rparr>" 1]
    by (simp add: s)
  show ?thesis
    by (intro conjI w1 w2) simp_all
qed

text \<open>
  Claim C7. A call reaches the assembly stage when every section validates. Then the
  header the call leaves behind is the header it received with the text \<open> - \<close> and the
  instrument name appended to the title; meter, unit length, tempo, key, program and
  channel are unchanged; and a second call on the header left by the first appends a
  second time. A call stopped by the validation leaves the header as it was.
\<close>

theorem assemble_instrument_header_title:
  "(validate_sections secs h = Inr () \<longrightarrow>
      fst (assemble_instrument iname secs st h ks au)
        = h\<lparr>title := title h @ '' - '' @ iname\<rparr> \<and>
      title (fst (assemble_instrument iname secs st h ks au)) = title h @ '' - '' @ iname \<and>
      meter (fst (assemble_instrument iname secs st h ks au)) = meter h \<and>
      unit_length (fst (assemble_instrument iname secs st h ks au)) = unit_length h \<and>
      tempo (fst (assemble_instrument iname secs st h ks au)) = tempo h \<and>
      key (fst (assemble_instrument iname secs st h ks au)) = key h \<and>
      midi_program (fst (assemble_instrument iname secs st h ks au)) = midi_program h \<and>
      midi_channel (fst (assemble_instrument iname secs st h ks au)) = midi_channel h \<and>
      title (fst (assemble_instrument iname2 secs st2
               (fst (assemble_instrument iname secs st h ks au)) ks2 au2))
        = title h @ '' - '' @ iname @ '' - '' @ iname2) \<and>
   (validate_sections secs h \<noteq> Inr () \<longrightarrow>
      fst (assemble_instrument iname secs st h ks au) = h)"
proof -
  have a: "fst (assemble_instrument n secs s g k a) = g\<lparr>title := title g @ '' - '' @ n\<rparr>"
    if "validate_sections secs g = Inr ()" for n s g k a
    using that by (simp add: assemble_instrument_def Let_def)
  have b: "fst (assemble_instrument iname secs st h ks au) = h"
    if "validate_sections secs h \<noteq> Inr ()"
    using that by (cases "validate_sections secs h") (simp_all add: assemble_instrument_def)
  have c: "title (fst (assemble_instrument iname2 secs st2
               (fst (assemble_instrument iname secs st h ks au)) ks2 au2))
        = title h @ '' - '' @ iname @ '' - '' @ iname2"
    if v: "validate_sections secs h = Inr ()"
  proof -
    have "validate_sections secs (h\<lparr>title := title h @ '' - '' @ iname\<rparr>) = Inr ()"
      using v by (simp only: validate_sections_title)
    then show ?thesis by (simp add: a [OF v] a)
  qed
  show ?thesis
  proof (intro conjI impI)
    assume v: "validate_sections secs h = Inr ()"
    show "fst (assemble_instrument iname secs st h ks au) = h\<lparr>title := title h @ '' - '' @ iname\<rparr>"
      by (rule a [OF v])
    show "title (fst (assemble_instrument iname secs st h ks au)) = title h @ '' - '' @ iname"
      by (simp add: a [OF v])
    show "meter (fst (assemble_instrument iname secs st h ks au)) = meter h"
      by (simp add: a [OF v])
    show "unit_length (fst (assemble_instrument iname secs st h ks au)) = unit_length h"
      by (simp add: a [OF v])
    show "tempo (fst (assemble_instrument iname secs st h ks au)) = tempo h"
      by (simp add: a [OF v])
    show "key (fst (assemble_instrument iname secs st h ks au)) = key h"
      by (simp add: a [OF v])
    show "midi_program (fst (assemble_instrument iname secs st h ks au)) = midi_program h"
      by (simp add: a [OF v])
    show "midi_channel (fst (assemble_instrument iname secs st h ks au)) = midi_channel h"
      by (simp add: a [OF v])
    show "title (fst (assemble_instrument iname2 secs st2
               (fst (assemble_instrument iname secs st h ks au)) ks2 au2))
        = title h @ '' - '' @ iname @ '' - '' @ iname2"
      by (rule c [OF v])
  next
    assume "validate_sections secs h \<noteq> Inr ()"
    then show "fst (assemble_instrument iname secs st h ks au) = h" by (rule b)
  qed
qed

theorem assemble_instrument_header_title_witness:
  "validate_sections [section_A, section_B] demo_header = Inr () \<and>
   title (fst (assemble_instrument ''bass'' [section_A, section_B] [''A''] demo_header None None))
     = ''Song - bass'' \<and>
   meter (fst (assemble_instrument ''bass'' [section_A, section_B] [''A''] demo_header None None))
     = ''4/4'' \<and>
   title (fst (assemble_instrument ''lead'' [section_A, section_B] [''B'']
            (fst (assemble_instrument ''bass'' [section_A, section_B] [''A''] demo_header
                    None None)) None None))
     = ''Song - bass - lead'' \<and>
   validate_sections [section_A, section_short] demo_header \<noteq> Inr () \<and>
   fst (assemble_instrument ''bass'' [section_A, section_short] [''A''] demo_header None None)
     = demo_header"
proof -
  have n: "validate_sections [section_A, section_short] demo_header \<noteq> Inr ()"
    by (simp add: demo_valid_A demo_invalid_short)
  note a = assemble_instrument_header_title [of "[section_A, section_B]" demo_header
      "''bass''" "[''A'']" None None "''lead''" "[''B'']" None None,
      THEN conjunct1, THEN mp, OF demo_sections_valid]
  note b = assemble_instrument_header_title [of "[section_A, section_short]" demo_header
      "''bass''" "[''A'']" None None "''lead''" "[''B'']" None None,
      THEN conjunct2, THEN mp, OF n]
  have t: "title demo_header = ''Song''" "meter demo_header = ''4/4''"
    by (simp_all add: demo_header_def)
  from a have "title (fst (assemble_instrument ''bass'' [section_A, section_B] [''A'']
      demo_header None None)) = title demo_header @ '' - '' @ ''bass''"
    by blast
  then have 1: "title (fst (assemble_instrument ''bass'' [section_A, section_B] [''A'']
      demo_header None None)) = ''Song - bass''"
    by (simp add: t)
  from a have "meter (fst (assemble_instrument ''bass'' [section_A, section_B] [''A'']
      demo_header None None)) = meter demo_header"
    by blast
  then have 2: "meter (fst (assemble_instrument ''bass'' [section_A, section_B] [''A'']
      demo_header None None)) = ''4/4''"
    by (simp add: t)
  from a have "title (fst (assemble_instrument ''lead'' [section_A, section_B] [''B'']
            (fst (assemble_instrument ''bass'' [section_A, section_B] [''A''] demo_header
                    None None)) None None))
     = title demo_header @ '' - '' @ ''bass'' @ '' - '' @ ''lead''"
    by blast
  then have 3: "title (fst (assemble_instrument ''lead'' [section_A, section_B] [''B'']
            (fst (assemble_instrument ''bass'' [section_A, section_B] [''A''] demo_header
                    None None)) None None))
     = ''Song - bass - lead''"
    by (simp add: t)
  from demo_sections_valid 1 2 3 n b show ?thesis by (intro conjI)
qed

text \<open>
  Claim C6. When \<open>assemble_instrument\<close> returns a document, the document is the
  newline-join of the header block (rendered with the new title and index 1), one empty
  line, and for every name of the structure, in the order of the structure and with
  repeats, the marker line \<open>% Section: name\<close> followed by the text of the section of that
  name; every name of the structure is the name of a supplied section, and the section
  taken is the last one supplied under that name.
\<close>

theorem assemble_instrument_document:
  "(snd (assemble_instrument iname secs st h ks au) = Inr doc \<longrightarrow>
      doc = join [CHR 0x0A]
        ([generate_abc_header (h\<lparr>title := title h @ '' - '' @ iname\<rparr>) 1, []] @
         concat (map (\<lambda>n. [''% Section: '' @ n, abc (the (section_map secs n))]) st)) \<and>
      (\<forall>n\<in>set st. n \<in> name ` set secs \<and>
         section_map secs n = Some (last (filter (\<lambda>s. name s = n) secs))))"
proof (intro impI)
  assume d: "snd (assemble_instrument iname secs st h ks au) = Inr doc"
  let ?h = "h\<lparr>title := title h @ '' - '' @ iname\<rparr>"
  let ?acc = "[generate_abc_header ?h 1, []]"
  from d have v: "validate_sections secs h = Inr ()"
    by (cases "validate_sections secs h") (simp_all add: assemble_instrument_def)
  from d v obtain r where r: "assemble_body (section_map secs) st ?acc = Inr r"
    and doc: "doc = join [CHR 0x0A] r"
    by (cases "assemble_body (section_map secs) st ?acc")
       (simp_all add: assemble_instrument_def Let_def)
  have k: "\<forall>n\<in>set st. section_map secs n \<noteq> None"
    using r by (rule assemble_body_Inr)
  have "r = ?acc @ concat (map (\<lambda>n. [''% Section: '' @ n, abc (the (section_map secs n))]) st)"
    using assemble_body_known [OF k, of ?acc] r by simp
  with doc have 1: "doc = join [CHR 0x0A]
        (?acc @ concat (map (\<lambda>n. [''% Section: '' @ n, abc (the (section_map secs n))]) st))"
    by simp
  have 2: "\<forall>n\<in>set st. n \<in> name ` set secs \<and>
         section_map secs n = Some (last (filter (\<lambda>s. name s = n) secs))"
  proof
    fix n assume "n \<in> set st"
    with k have s: "section_map secs n \<noteq> None" by simp
    then have "n \<in> name ` set secs" by (simp only: section_map_known)
    moreover from s have "section_map secs n = Some (last (filter (\<lambda>s. name s = n) secs))"
      by (cases "filter (\<lambda>s. name s = n) secs") (simp_all add: section_map_last)
    ultimately show "n \<in> name ` set secs \<and>
         section_map secs n = Some (last (filter (\<lambda>s. name s = n) secs))" by simp
  qed
  from 1 2 show "doc = join [CHR 0x0A]
        ([generate_abc_header ?h 1, []] @
         concat (map (\<lambda>n. [''% Section: '' @ n, abc (the (section_map secs n))]) st)) \<and>
      (\<forall>n\<in>set st. n \<in> name ` set secs \<and>
         section_map secs n = Some (last (filter (\<lambda>s. name s = n) secs)))"
    by simp
qed

theorem assemble_instrument_document_witness:
  "snd (assemble_instrument ''bass'' [section_A, section_B] [''A'', ''B'', ''A''] demo_header
         None None)
     = Inr (join [CHR 0x0A] [''X:1'', ''T:Song - bass'', ''M:4/4'', ''L:1/8'', ''K:C'',
         ''%%MIDI program 0'', ''%%MIDI channel 1'', [],
         ''% Section: A'', ''C2C2C2C2 | C2C2C2C2 |'',
         ''% Section: B'', ''z8 | z8 |'',
         ''% Section: A'', ''C2C2C2C2 | C2C2C2C2 |'']) \<and>
   join [CHR 0x0A] [''X:1'', ''T:Song - bass'', ''M:4/4'', ''L:1/8'', ''K:C'',
         ''%%MIDI program 0'', ''%%MIDI channel 1'', [],
         ''% Section: A'', ''C2C2C2C2 | C2C2C2C2 |'',
         ''% Section: B'', ''z8 | z8 |'',
         ''% Section: A'', ''C2C2C2C2 | C2C2C2C2 |'']
     = join [CHR 0x0A]
         ([generate_abc_header (demo_header\<lparr>title := title demo_header @ '' - '' @ ''bass''\<rparr>) 1,
           []] @
          concat (map (\<lambda>n. [''% Section: '' @ n,
                              abc (the (section_map [section_A, section_B] n))])
                    [''A'', ''B'', ''A''])) \<and>
   section_map [section_A, section_B] ''A'' = Some section_A \<and>
   section_map [section_A, section_B] ''B'' = Some section_B"
proof -
  note w = assemble_instrument_document [of "''bass''" "[section_A, section_B]"
      "[''A'', ''B'', ''A'']" demo_header None None, THEN mp, OF demo_document]
  from w have a: "section_map [section_A, section_B] ''A''
      = Some (last (filter (\<lambda>s. name s = ''A'') [section_A, section_B]))"
    by simp
  from w have b: "section_map [section_A, section_B] ''B''
      = Some (last (filter (\<lambda>s. name s = ''B'') [section_A, section_B]))"
    by simp
  from a have a': "section_map [section_A, section_B] ''A'' = Some section_A"
    by (simp add: section_A_def section_B_def)
  from b have b': "section_map [section_A, section_B] ''B'' = Some section_B"
    by (simp add: section_A_def section_B_def)
  from demo_document w [THEN conjunct1] a' b' show ?thesis by (intro conjI)
qed

text \<open>
  Claim C4. When the sections before \<open>s\<close> in the supplied list all validate and \<open>s\<close>
  fails its bar validation with message \<open>msg\<close>, the call raises the \<open>ValueError\<close> naming
  \<open>s\<close> with that message, whatever the structure is (so an unknown name in the
  structure is masked), and leaves the header unchanged. When all sections validate and
  the structure has a first name that no supplied section carries, the call raises the
  unknown-section \<open>ValueError\<close> for that name. A document is returned exactly when all
  sections validate and every name of the structure is the name of a supplied section;
  the outcome is either one error or the document.
\<close>

theorem assemble_instrument_errors:
  "((\<forall>p\<in>set pre. validate_bars (abc p) (bars p) (meter h) (unit_length h) = Inr (True, [])) \<and>
    validate_bars (abc s) (bars s) (meter h) (unit_length h) = Inr (False, msg) \<longrightarrow>
      assemble_instrument iname (pre @ s # post) st h ks au
        = (h, Inl (ValueError
             (Lit (''Section '' @ [CHR 0x27] @ name s @ [CHR 0x27] @ '': '') # msg)))) \<and>
   (validate_sections secs h = Inr () \<and> set spre \<subseteq> name ` set secs \<and> n \<notin> name ` set secs \<longrightarrow>
      snd (assemble_instrument iname secs (spre @ n # spost) h ks au)
        = Inl (ValueError [Lit (''Unknown section: '' @ n)])) \<and>
   ((\<exists>doc. snd (assemble_instrument iname secs st h ks au) = Inr doc) \<longleftrightarrow>
      validate_sections secs h = Inr () \<and> set st \<subseteq> name ` set secs)"
proof (intro conjI impI)
  assume a: "(\<forall>p\<in>set pre. validate_bars (abc p) (bars p) (meter h) (unit_length h) = Inr (True, [])) \<and>
    validate_bars (abc s) (bars s) (meter h) (unit_length h) = Inr (False, msg)"
  have "validate_sections (pre @ s # post) h
     = Inl (ValueError (Lit (''Section '' @ [CHR 0x27] @ name s @ [CHR 0x27] @ '': '') # msg))"
    using a by (intro validate_sections_first_invalid) simp_all
  then show "assemble_instrument iname (pre @ s # post) st h ks au
        = (h, Inl (ValueError
             (Lit (''Section '' @ [CHR 0x27] @ name s @ [CHR 0x27] @ '': '') # msg)))"
    by (simp add: assemble_instrument_def)
next
  assume a: "validate_sections secs h = Inr () \<and> set spre \<subseteq> name ` set secs \<and> n \<notin> name ` set secs"
  then have 1: "\<forall>x\<in>set spre. section_map secs x \<noteq> None"
    using section_map_known [of secs] by blast
  from a have 2: "section_map secs n = None"
    using section_map_known [of secs n] by blast
  show "snd (assemble_instrument iname secs (spre @ n # spost) h ks au)
        = Inl (ValueError [Lit (''Unknown section: '' @ n)])"
    using a by (simp add: assemble_instrument_def Let_def assemble_body_unknown [OF 1 2])
next
  show "(\<exists>doc. snd (assemble_instrument iname secs st h ks au) = Inr doc) \<longleftrightarrow>
      validate_sections secs h = Inr () \<and> set st \<subseteq> name ` set secs"
  proof
    assume "\<exists>doc. snd (assemble_instrument iname secs st h ks au) = Inr doc"
    then obtain doc where d: "snd (assemble_instrument iname secs st h ks au) = Inr doc" ..
    let ?acc = "[generate_abc_header (h\<lparr>title := title h @ '' - '' @ iname\<rparr>) 1, []]"
    from d have v: "validate_sections secs h = Inr ()"
      by (cases "validate_sections secs h") (simp_all add: assemble_instrument_def)
    from d v obtain r where "assemble_body (section_map secs) st ?acc = Inr r"
      by (cases "assemble_body (section_map secs) st ?acc")
         (simp_all add: assemble_instrument_def Let_def)
    then have "\<forall>n\<in>set st. section_map secs n \<noteq> None" by (rule assemble_body_Inr)
    then have "set st \<subseteq> name ` set secs" using section_map_known [of secs] by blast
    with v show "validate_sections secs h = Inr () \<and> set st \<subseteq> name ` set secs" by simp
  next
    assume a: "validate_sections secs h = Inr () \<and> set st \<subseteq> name ` set secs"
    then have "\<forall>n\<in>set st. section_map secs n \<noteq> None"
      using section_map_known [of secs] by blast
    then show "\<exists>doc. snd (assemble_instrument iname secs st h ks au) = Inr doc"
      using a by (simp add: assemble_instrument_def Let_def assemble_body_known)
  qed
qed

theorem assemble_instrument_errors_witness:
  "validate_bars (abc section_A) (bars section_A) (meter demo_header) (unit_length demo_header)
     = Inr (True, []) \<and>
   validate_bars (abc section_short) (bars section_short) (meter demo_header)
     (unit_length demo_header)
     = Inr (False, [Lit ''Expected 2 bars (16 units), got '', Fixed2 1, Lit '' bars ('',
         FloatStr 8, Lit '' units)'']) \<and>
   assemble_instrument ''bass'' ([section_A] @ section_short # [section_B]) [''A'', ''X'']
       demo_header None None
     = (demo_header, Inl (ValueError
         [Lit (''Section '' @ [CHR 0x27] @ ''C'' @ [CHR 0x27] @ '': ''),
          Lit ''Expected 2 bars (16 units), got '', Fixed2 1, Lit '' bars ('',
          FloatStr 8, Lit '' units)''])) \<and>
   validate_sections [section_A, section_B] demo_header = Inr () \<and>
   set [''A''] \<subseteq> name ` set [section_A, section_B] \<and>
   ''X'' \<notin> name ` set [section_A, section_B] \<and>
   snd (assemble_instrument ''bass'' [section_A, section_B] ([''A''] @ ''X'' # [''B''])
          demo_header None None)
     = Inl (ValueError [Lit ''Unknown section: X'']) \<and>
   (\<exists>doc. snd (assemble_instrument ''bass'' [section_A, section_B] [''A'', ''B'', ''A'']
                  demo_header None None) = Inr doc)"
proof -
  have p: "\<forall>p\<in>set [section_A].
      validate_bars (abc p) (bars p) (meter demo_header) (unit_length demo_header)
        = Inr (True, [])"
    by (simp add: demo_valid_A)
  have k: "set [''A''] \<subseteq> name ` set [section_A, section_B]"
    "''X'' \<notin> name ` set [section_A, section_B]"
    "set [''A'', ''B'', ''A''] \<subseteq> name ` set [section_A, section_B]"
    by (simp_all add: section_A_def section_B_def)
  have nm: "name section_short = ''C''" by (simp add: section_short_def)
  note t = assemble_instrument_errors
  have 1: "assemble_instrument ''bass'' ([section_A] @ section_short # [section_B]) [''A'', ''X'']
       demo_header None None
     = (demo_header, Inl (ValueError
         [Lit (''Section '' @ [CHR 0x27] @ ''C'' @ [CHR 0x27] @ '': ''),
          Lit ''Expected 2 bars (16 units), got '', Fixed2 1, Lit '' bars ('',
          FloatStr 8, Lit '' units)'']))"
    using t [of "[section_A]" demo_header section_short _ "''bass''" "[section_B]"
        "[''A'', ''X'']" None None, THEN conjunct1, THEN mp, OF conjI [OF p demo_invalid_short]]
    by (simp only: nm)
  have 2: "snd (assemble_instrument ''bass'' [section_A, section_B] ([''A''] @ ''X'' # [''B''])
          demo_header None None)
     = Inl (ValueError [Lit ''Unknown section: X''])"
    using t [where secs = "[section_A, section_B]" and h = demo_header and spre = "[''A'']"
        and n = "''X''" and iname = "''bass''" and spost = "[''B'']" and ks = None and au = None,
        THEN conjunct2, THEN conjunct1, THEN mp,
        OF conjI [OF demo_sections_valid conjI [OF k(1) k(2)]]]
    by simp
  have 3: "\<exists>doc. snd (assemble_instrument ''bass'' [section_A, section_B] [''A'', ''B'', ''A'']
                  demo_header None None) = Inr doc"
    using t [where secs = "[section_A, section_B]" and h = demo_header
        and st = "[''A'', ''B'', ''A'']" and iname = "''bass''" and ks = None and au = None,
        THEN conjunct2, THEN conjunct2] demo_sections_valid k(3)
    by blast
  from demo_valid_A demo_invalid_short 1 demo_sections_valid k(1) k(2) 2 3 show ?thesis
    by (intro conjI)
qed

end
